theory Spec2Isabelle
  imports Complex_Main
begin

section \<open>JavaScript strings\<close>

text \<open>
  A JavaScript string is a sequence of UTF-16 code units; \<open>.length\<close> counts code units.
  Byte buffers (\<open>Uint8Array\<close>) are sequences of numbers below 256.  A thrown \<open>Error\<close>
  is a value carrying its \<open>message\<close>; a function that may throw returns \<open>error + 'a\<close>.
\<close>

type_synonym jsstring = "nat list"

type_synonym bytes = "nat list"

datatype error = Error (message: jsstring)

definition js :: "string \<Rightarrow> jsstring" where
  "js s = map of_char s"

definition isAscii :: "jsstring \<Rightarrow> bool" where
  "isAscii s = list_all (\<lambda>c. c < 128) s"

text \<open>White space as \<open>\s\<close> and \<open>String.prototype.trim\<close> see it (WhiteSpace and LineTerminator).\<close>

definition isWhiteSpace :: "nat \<Rightarrow> bool" where
  "isWhiteSpace c =
     (c = 9 \<or> c = 10 \<or> c = 11 \<or> c = 12 \<or> c = 13 \<or> c = 32 \<or> c = 160 \<or> c = 5760 \<or>
      (8192 \<le> c \<and> c \<le> 8202) \<or> c = 8232 \<or> c = 8233 \<or> c = 8239 \<or> c = 8287 \<or>
      c = 12288 \<or> c = 65279)"

definition trim :: "jsstring \<Rightarrow> jsstring" where
  "trim s = rev (dropWhile isWhiteSpace (rev (dropWhile isWhiteSpace s)))"

text \<open>\<open>s.split(d)\<close> for a one-character separator \<open>d\<close>; \<open>''.split(d)\<close> is \<open>['']\<close>.\<close>

fun split_on :: "nat \<Rightarrow> jsstring \<Rightarrow> jsstring list" where
  "split_on d [] = [[]]"
| "split_on d (c # cs) =
     (if c = d then [] # split_on d cs
      else (case split_on d cs of
              [] \<Rightarrow> [[c]]
            | p # ps \<Rightarrow> (c # p) # ps))"

text \<open>\<open>s.split(/\s+/)\<close>: the pieces between maximal runs of white space.\<close>

function splitWs_from :: "jsstring \<Rightarrow> jsstring \<Rightarrow> jsstring list" where
  "splitWs_from cur [] = [cur]"
| "splitWs_from cur (c # cs) =
     (if isWhiteSpace c then cur # splitWs_from [] (dropWhile isWhiteSpace cs)
      else splitWs_from (cur @ [c]) cs)"
  by pat_completeness auto
termination
  by (relation "measure (\<lambda>(cur, s). length s)") (auto simp: length_dropWhile_le less_Suc_eq_le)

definition splitWs :: "jsstring \<Rightarrow> jsstring list" where
  "splitWs s = splitWs_from [] s"

text \<open>\<open>parts.join(sep)\<close>.\<close>

fun join :: "jsstring \<Rightarrow> jsstring list \<Rightarrow> jsstring" where
  "join sep [] = []"
| "join sep [x] = x"
| "join sep (x # y # ys) = x @ sep @ join sep (y # ys)"

text \<open>\<open>s.includes(sub)\<close>.\<close>

fun str_includes :: "jsstring \<Rightarrow> jsstring \<Rightarrow> bool" where
  "str_includes [] sub = (sub = [])"
| "str_includes (c # cs) sub = (take (length sub) (c # cs) = sub \<or> str_includes cs sub)"

text \<open>
  \<open>s.replace(/[...]/g, f)\<close> for a pattern that matches one code unit: every code unit
  satisfying \<open>P\<close> is replaced by \<open>f\<close> of it.
\<close>

definition replaceChars :: "(nat \<Rightarrow> bool) \<Rightarrow> (nat \<Rightarrow> jsstring) \<Rightarrow> jsstring \<Rightarrow> jsstring" where
  "replaceChars P f s = concat (map (\<lambda>c. if P c then f c else [c]) s)"

definition replaceChar :: "nat \<Rightarrow> jsstring \<Rightarrow> jsstring \<Rightarrow> jsstring" where
  "replaceChar d r s = replaceChars (\<lambda>c. c = d) (\<lambda>c. r) s"

text \<open>
  \<open>s.replace(/pat/g, rep)\<close> for a literal, non-empty pattern: leftmost matches,
  not overlapping.  (An empty pattern is never used by the program; the string is returned.)
\<close>

function replaceAll :: "jsstring \<Rightarrow> jsstring \<Rightarrow> jsstring \<Rightarrow> jsstring" where
  "replaceAll pat rep s =
     (if pat = [] \<or> s = [] then s
      else if take (length pat) s = pat then rep @ replaceAll pat rep (drop (length pat) s)
      else hd s # replaceAll pat rep (tl s))"
  by pat_completeness auto
termination
  by (relation "measure (\<lambda>(pat, rep, s). length s)") auto

declare replaceAll.simps [simp del]

text \<open>\<open>n.toString()\<close> and \<open>n.toString(16)\<close> for a non-negative integer.\<close>

function showNat :: "nat \<Rightarrow> jsstring" where
  "showNat n = (if n < 10 then [48 + n] else showNat (n div 10) @ [48 + n mod 10])"
  by pat_completeness auto
termination
  by (relation "measure id") auto

declare showNat.simps [simp del]

definition hexDigit :: "nat \<Rightarrow> nat" where
  "hexDigit d = (if d < 10 then 48 + d else 87 + d)"

function toString16 :: "nat \<Rightarrow> jsstring" where
  "toString16 n = (if n < 16 then [hexDigit n] else toString16 (n div 16) @ [hexDigit (n mod 16)])"
  by pat_completeness auto
termination
  by (relation "measure id") auto

declare toString16.simps [simp del]

text \<open>\<open>s.toUpperCase()\<close> on the ASCII letters (the program upper-cases hexadecimal digits only).\<close>

definition toUpperCase :: "jsstring \<Rightarrow> jsstring" where
  "toUpperCase s = map (\<lambda>c. if 97 \<le> c \<and> c \<le> 122 then c - 32 else c) s"

text \<open>\<open>s.padStart(n, '0')\<close> and \<open>s.padEnd(n, c)\<close> with a one-character filler.\<close>

definition padStart :: "nat \<Rightarrow> nat \<Rightarrow> jsstring \<Rightarrow> jsstring" where
  "padStart n c s = replicate (n - length s) c @ s"

definition padEnd :: "nat \<Rightarrow> nat \<Rightarrow> jsstring \<Rightarrow> jsstring" where
  "padEnd n c s = s @ replicate (n - length s) c"

subsection \<open>UTF-8\<close>

definition isHighSurrogate :: "nat \<Rightarrow> bool" where
  "isHighSurrogate c = (55296 \<le> c \<and> c \<le> 56319)"

definition isLowSurrogate :: "nat \<Rightarrow> bool" where
  "isLowSurrogate c = (56320 \<le> c \<and> c \<le> 57343)"

definition surrogatePair :: "nat \<Rightarrow> nat \<Rightarrow> nat" where
  "surrogatePair hi lo = 65536 + (hi - 55296) * 1024 + (lo - 56320)"

definition utf8CodePoint :: "nat \<Rightarrow> bytes" where
  "utf8CodePoint v =
     (if v < 128 then [v]
      else if v < 2048 then [192 + v div 64, 128 + v mod 64]
      else if v < 65536 then [224 + v div 4096, 128 + (v div 64) mod 64, 128 + v mod 64]
      else [240 + v div 262144, 128 + (v div 4096) mod 64, 128 + (v div 64) mod 64,
            128 + v mod 64])"

text \<open>
  \<open>new TextEncoder().encode(s)\<close>: UTF-8 of the code points of \<open>s\<close>; a surrogate
  without its partner is encoded as U+FFFD.
\<close>

fun textEncode :: "jsstring \<Rightarrow> bytes" where
  "textEncode [] = []"
| "textEncode (c # cs) =
     (if isHighSurrogate c then
        (case cs of
           [] \<Rightarrow> [239, 191, 189]
         | d # ds \<Rightarrow>
             if isLowSurrogate d then utf8CodePoint (surrogatePair c d) @ textEncode ds
             else [239, 191, 189] @ textEncode cs)
      else if isLowSurrogate c then [239, 191, 189] @ textEncode cs
      else utf8CodePoint c @ textEncode cs)"

section \<open>The key encoder (\<open>SecureS3Downloader.encodeS3Key\<close>)\<close>

definition uriError :: error where
  "uriError = Error (js ''URI malformed'')"

text \<open>The characters \<open>encodeURIComponent\<close> leaves alone: letters, digits and \<open>-_.!~*'()\<close>.\<close>

definition uriUnescaped :: "nat \<Rightarrow> bool" where
  "uriUnescaped c =
     ((65 \<le> c \<and> c \<le> 90) \<or> (97 \<le> c \<and> c \<le> 122) \<or> (48 \<le> c \<and> c \<le> 57) \<or>
      c = 45 \<or> c = 95 \<or> c = 46 \<or> c = 33 \<or> c = 126 \<or> c = 42 \<or> c = 39 \<or> c = 40 \<or> c = 41)"

definition pctByte :: "nat \<Rightarrow> jsstring" where
  "pctByte b = [37, hexDigit (b div 16), hexDigit (b mod 16)]"

definition pctEncode :: "bytes \<Rightarrow> jsstring" where
  "pctEncode bs = toUpperCase (concat (map pctByte bs))"

fun encodeURIComponent :: "jsstring \<Rightarrow> error + jsstring" where
  "encodeURIComponent [] = Inr []"
| "encodeURIComponent (c # cs) =
     (if uriUnescaped c then
        (case encodeURIComponent cs of Inl e \<Rightarrow> Inl e | Inr r \<Rightarrow> Inr (c # r))
      else if isLowSurrogate c then Inl uriError
      else if isHighSurrogate c then
        (case cs of
           [] \<Rightarrow> Inl uriError
         | d # ds \<Rightarrow>
             if isLowSurrogate d then
               (case encodeURIComponent ds of
                  Inl e \<Rightarrow> Inl e
                | Inr r \<Rightarrow> Inr (pctEncode (utf8CodePoint (surrogatePair c d)) @ r))
             else Inl uriError)
      else
        (case encodeURIComponent cs of
           Inl e \<Rightarrow> Inl e
         | Inr r \<Rightarrow> Inr (pctEncode (utf8CodePoint c) @ r)))"

text \<open>
  \<open>decodeURIComponent\<close>: \<open>%XX\<close> escapes are read as UTF-8 octets; a truncated or
  non-hexadecimal escape, or octets that are not the UTF-8 encoding of a code point,
  throw a \<open>URIError\<close>.
\<close>

definition hexValue :: "nat \<Rightarrow> nat option" where
  "hexValue c =
     (if 48 \<le> c \<and> c \<le> 57 then Some (c - 48)
      else if 65 \<le> c \<and> c \<le> 70 then Some (c - 55)
      else if 97 \<le> c \<and> c \<le> 102 then Some (c - 87)
      else None)"

fun readEscape :: "jsstring \<Rightarrow> (nat \<times> jsstring) option" where
  "readEscape (p # h # l # rest) =
     (if p = 37 then
        (case hexValue h of
           None \<Rightarrow> None
         | Some a \<Rightarrow> (case hexValue l of None \<Rightarrow> None | Some b \<Rightarrow> Some (16 * a + b, rest)))
      else None)"
| "readEscape s = None"

fun readContinuation :: "nat \<Rightarrow> jsstring \<Rightarrow> (bytes \<times> jsstring) option" where
  "readContinuation 0 s = Some ([], s)"
| "readContinuation (Suc n) s =
     (case readEscape s of
        None \<Rightarrow> None
      | Some (b, rest) \<Rightarrow>
          if 128 \<le> b \<and> b < 192 then
            (case readContinuation n rest of
               None \<Rightarrow> None
             | Some (bs, rest') \<Rightarrow> Some (b # bs, rest'))
          else None)"

definition leadingOnes :: "nat \<Rightarrow> nat" where
  "leadingOnes b =
     (if b < 128 then 0 else if b < 192 then 1 else if b < 224 then 2
      else if b < 240 then 3 else if b < 248 then 4 else 5)"

definition utf8Value :: "nat \<Rightarrow> bytes \<Rightarrow> nat option" where
  "utf8Value b bs =
     (let v = foldl (\<lambda>acc x. acc * 64 + (x - 128)) (b mod (2 ^ (7 - leadingOnes b))) bs;
          n = leadingOnes b
      in if n = 2 \<and> 128 \<le> v then Some v
         else if n = 3 \<and> 2048 \<le> v \<and> \<not> (55296 \<le> v \<and> v \<le> 57343) then Some v
         else if n = 4 \<and> 65536 \<le> v \<and> v \<le> 1114111 then Some v
         else None)"

definition utf16Encode :: "nat \<Rightarrow> jsstring" where
  "utf16Encode v =
     (if v < 65536 then [v]
      else [55296 + (v - 65536) div 1024, 56320 + (v - 65536) mod 1024])"

lemma readEscape_length:
  "readEscape s = Some (b, rest) \<Longrightarrow> length rest < length s"
  by (induction s rule: readEscape.induct) (auto split: if_splits option.splits)

lemma readContinuation_length:
  "readContinuation n s = Some (bs, rest) \<Longrightarrow> length rest \<le> length s"
proof (induction n arbitrary: s bs rest)
  case 0
  then show ?case by simp
next
  case (Suc n)
  then show ?case
    by (fastforce split: option.splits if_splits prod.splits dest: readEscape_length)
qed

function decodeURIComponent :: "jsstring \<Rightarrow> error + jsstring" where
  "decodeURIComponent [] = Inr []"
| "decodeURIComponent (c # cs) =
     (if c \<noteq> 37 then
        (case decodeURIComponent cs of Inl e \<Rightarrow> Inl e | Inr r \<Rightarrow> Inr (c # r))
      else
        (case readEscape (c # cs) of
           None \<Rightarrow> Inl uriError
         | Some (b, rest) \<Rightarrow>
             if leadingOnes b = 0 then
               (case decodeURIComponent rest of Inl e \<Rightarrow> Inl e | Inr r \<Rightarrow> Inr (b # r))
             else if leadingOnes b = 1 \<or> 4 < leadingOnes b then Inl uriError
             else
               (case readContinuation (leadingOnes b - 1) rest of
                  None \<Rightarrow> Inl uriError
                | Some (bs, rest') \<Rightarrow>
                    (case utf8Value b bs of
                       None \<Rightarrow> Inl uriError
                     | Some v \<Rightarrow>
                         (case decodeURIComponent rest' of
                            Inl e \<Rightarrow> Inl e
                          | Inr r \<Rightarrow> Inr (utf16Encode v @ r))))))"
  by pat_completeness auto
termination
proof (relation "measure length", goal_cases)
  case 1
  then show ?case by simp
next
  case (2 c cs)
  then show ?case by simp
next
  case (3 c cs x2 b rest)
  then show ?case using readEscape_length [of "c # cs" b rest] by simp
next
  case (4 c cs x2 b rest x2a bs rest')
  then show ?case
    using readEscape_length [of "c # cs" b rest]
      readContinuation_length [of "leadingOnes b - 1" rest bs rest'] by simp
qed

fun mapE :: "('a \<Rightarrow> error + 'b) \<Rightarrow> 'a list \<Rightarrow> error + 'b list" where
  "mapE f [] = Inr []"
| "mapE f (x # xs) =
     (case f x of
        Inl e \<Rightarrow> Inl e
      | Inr y \<Rightarrow> (case mapE f xs of Inl e \<Rightarrow> Inl e | Inr ys \<Rightarrow> Inr (y # ys)))"

text \<open>The callback of \<open>pathParts.map\<close>: \<open>encodeURIComponent\<close> and the chain of replacements.\<close>

definition encodePart :: "jsstring \<Rightarrow> error + jsstring" where
  "encodePart part =
     (case encodeURIComponent part of
        Inl e \<Rightarrow> Inl e
      | Inr s \<Rightarrow>
          Inr (replaceAll (js ''%20'') (js ''%20'')
                (replaceChar 43 (js ''%2B'')
                (replaceChar 61 (js ''%3D'')
                (replaceChar 38 (js ''%26'')
                (replaceChar 63 (js ''%3F'')
                (replaceChar 35 (js ''%23'')
                (replaceChar 125 (js ''%7D'')
                (replaceChar 123 (js ''%7B'')
                (replaceChar 93 (js ''%5D'')
                (replaceChar 91 (js ''%5B'')
                (replaceChar 41 (js ''%29'')
                (replaceChar 40 (js ''%28'')
                (replaceChars (\<lambda>c. c = 33 \<or> c = 39 \<or> c = 40 \<or> c = 41 \<or> c = 42)
                   (\<lambda>c. 37 # toUpperCase (toString16 c)) s))))))))))))))"

definition encodeS3Key :: "jsstring \<Rightarrow> error + jsstring" where
  "encodeS3Key key =
     (let decodedKey = (case decodeURIComponent key of Inl e \<Rightarrow> key | Inr d \<Rightarrow> d);
          pathParts = split_on 47 decodedKey
      in case mapE encodePart pathParts of
           Inl e \<Rightarrow> Inl e
         | Inr encodedParts \<Rightarrow> Inr (join [47] encodedParts))"

section \<open>The retrieval coordinator (\<open>SecureS3Downloader\<close>)\<close>

text \<open>
  What the downloader does to the outside is recorded in a trace: the calls of
  \<open>onProgress\<close>, the calls of \<open>fetch\<close>, the timers of the back-off, and the two console
  lines of \<open>downloadFile\<close> that tell which method failed or succeeded.  The network is a
  parameter: the outcome of a \<open>fetch\<close> (a thrown error or a response) may depend on the
  request and on everything that happened before.  The signing primitives rest on
  \<open>CryptoJS\<close>, \<open>Date\<close> and \<open>URLSearchParams\<close> and are parameters too: \<open>presign\<close> gives the
  pre-signed URL for a bucket and a canonical URI, \<open>signHeaders\<close> the signed headers for
  a bucket and an encoded file name; \<open>btoa\<close> may throw.
\<close>

record response =
  ok :: bool
  status :: nat
  statusText :: jsstring
  contentTypeHeader :: "jsstring option"
  arrayBuffer :: "error + bytes"

record request =
  url :: jsstring
  headers :: "(jsstring \<times> jsstring) list"

datatype event =
    Progress nat jsstring "jsstring option"
  | Fetch request
  | Sleep nat
  | MethodFailed nat jsstring
  | MethodSucceeded nat

record world =
  trace :: "event list"
  lastGeneratedPresignedUrl :: "jsstring option"

record env =
  region :: jsstring
  accessKey :: jsstring
  secretKey :: jsstring
  network :: "event list \<Rightarrow> request \<Rightarrow> error + response"
  presign :: "jsstring \<Rightarrow> jsstring \<Rightarrow> jsstring"
  signHeaders :: "jsstring \<Rightarrow> jsstring \<Rightarrow> (jsstring \<times> jsstring) list"
  btoa :: "jsstring \<Rightarrow> error + jsstring"

record downloadResult =
  buffer :: bytes
  contentType :: jsstring
  byteSize :: nat
  presignedUrl :: "jsstring option"

definition report :: "nat \<Rightarrow> jsstring \<Rightarrow> jsstring option \<Rightarrow> world \<Rightarrow> world" where
  "report percentage msg signedUrl w = w\<lparr>trace := trace w @ [Progress percentage msg signedUrl]\<rparr>"

text \<open>
  \<open>fetchWithRetry(url, options, retries)\<close>, from round \<open>i\<close> of its loop on.  When the loop
  ends without a \<open>return\<close> (no round at all), the function returns \<open>undefined\<close> (\<open>None\<close>).
\<close>

function fetchWithRetry_from ::
  "env \<Rightarrow> request \<Rightarrow> nat \<Rightarrow> nat \<Rightarrow> world \<Rightarrow> (error + response option) \<times> world" where
  "fetchWithRetry_from e req retries i w =
     (if i < retries then
        (case network e (trace w) req of
           Inr resp \<Rightarrow> (Inr (Some resp), w\<lparr>trace := trace w @ [Fetch req]\<rparr>)
         | Inl err \<Rightarrow>
             if i = retries - 1 then (Inl err, w\<lparr>trace := trace w @ [Fetch req]\<rparr>)
             else fetchWithRetry_from e req retries (i + 1)
                    (w\<lparr>trace := trace w @ [Fetch req, Sleep (1000 * (i + 1))]\<rparr>))
      else (Inr None, w))"
  by pat_completeness auto
termination
  by (relation "measure (\<lambda>(e, req, retries, i, w). retries - i)") auto

declare fetchWithRetry_from.simps [simp del]

definition fetchWithRetry :: "env \<Rightarrow> request \<Rightarrow> world \<Rightarrow> (error + response option) \<times> world" where
  "fetchWithRetry e req w = fetchWithRetry_from e req 3 0 w"

text \<open>
  \<open>createPresignedUrl\<close> and \<open>createSignedHeaders\<close>: the key is encoded, the rest is the
  signing primitive; an error is caught and thrown again under a new message.
\<close>

definition createPresignedUrl :: "env \<Rightarrow> jsstring \<Rightarrow> jsstring \<Rightarrow> error + jsstring" where
  "createPresignedUrl e bucketName fileName =
     (case encodeS3Key fileName of
        Inl err \<Rightarrow>
          Inl (Error (js ''Failed to create enhanced pre-signed URL: '' @ message err))
      | Inr encodedKey \<Rightarrow> Inr (presign e bucketName ([47] @ encodedKey)))"

definition createSignedHeaders ::
  "env \<Rightarrow> jsstring \<Rightarrow> jsstring \<Rightarrow> error + (jsstring \<times> jsstring) list" where
  "createSignedHeaders e bucketName fileName =
     (case encodeS3Key fileName of
        Inl err \<Rightarrow>
          Inl (Error (js ''Failed to create enhanced signed headers: '' @ message err))
      | Inr encodedFileName \<Rightarrow> Inr (signHeaders e bucketName encodedFileName))"

definition objectUrl :: "env \<Rightarrow> jsstring \<Rightarrow> jsstring \<Rightarrow> jsstring" where
  "objectUrl e bucketName encodedFileName =
     js ''https://'' @ bucketName @ js ''.s3.'' @ region e @ js ''.amazonaws.com/'' @
     encodedFileName"

text \<open>
  The part the three download methods share, from \<open>if (!response.ok)\<close> on; \<open>label\<close> is
  the method's name in the error message.  Reading \<open>.ok\<close> of \<open>undefined\<close> throws.
\<close>

definition receive ::
  "jsstring \<Rightarrow> jsstring \<Rightarrow> (error + response option) \<times> world \<Rightarrow>
   (error + downloadResult) \<times> world" where
  "receive label u fetched =
     (case fetched of
        (Inl err, w) \<Rightarrow> (Inl err, w)
      | (Inr None, w) \<Rightarrow> (Inl (Error (js ''Cannot read properties of undefined'')), w)
      | (Inr (Some resp), w) \<Rightarrow>
          if \<not> ok resp then
            (Inl (Error (label @ js '' download failed: '' @ showNat (status resp) @ [32] @
                         statusText resp)), w)
          else
            (case arrayBuffer resp of
               Inl err \<Rightarrow> (Inl err, report 80 (js ''Processing downloaded data...'') (Some u) w)
             | Inr data \<Rightarrow>
                 (Inr \<lparr>buffer = data,
                       contentType =
                         (case contentTypeHeader resp of
                            None \<Rightarrow> js ''application/pdf''
                          | Some c \<Rightarrow> if c \<noteq> [] then c else js ''application/pdf''),
                       byteSize = length data,
                       presignedUrl = Some u\<rparr>,
                  report 100 (js ''Download completed'') (Some u)
                    (report 80 (js ''Processing downloaded data...'') (Some u) w))))"

definition downloadWithPresignedUrl ::
  "env \<Rightarrow> jsstring \<Rightarrow> jsstring \<Rightarrow> world \<Rightarrow> (error + downloadResult) \<times> world" where
  "downloadWithPresignedUrl e bucketName fileName w =
     (let w1 = report 20 (js ''Creating pre-signed URL...'') None w
      in case createPresignedUrl e bucketName fileName of
           Inl err \<Rightarrow> (Inl err, w1)
         | Inr signedUrl \<Rightarrow>
             receive (js ''Pre-signed URL'') signedUrl
               (fetchWithRetry e
                  \<lparr>url = signedUrl, headers = [(js ''Accept'', js ''application/pdf,*/*'')]\<rparr>
                  (report 40 (js ''Downloading via pre-signed URL...'') (Some signedUrl)
                     (w1\<lparr>lastGeneratedPresignedUrl := Some signedUrl\<rparr>))))"

definition downloadWithDirectSigning ::
  "env \<Rightarrow> jsstring \<Rightarrow> jsstring \<Rightarrow> world \<Rightarrow> (error + downloadResult) \<times> world" where
  "downloadWithDirectSigning e bucketName fileName w =
     (let w1 = report 20 (js ''Creating direct signed request...'') None w
      in case encodeS3Key fileName of
           Inl err \<Rightarrow> (Inl err, w1)
         | Inr encodedFileName \<Rightarrow>
             (case createSignedHeaders e bucketName fileName of
                Inl err \<Rightarrow> (Inl err, w1)
              | Inr signedHeaders \<Rightarrow>
                  receive (js ''Direct signed'') (objectUrl e bucketName encodedFileName)
                    (fetchWithRetry e
                       \<lparr>url = objectUrl e bucketName encodedFileName,
                        headers = signedHeaders @ [(js ''Accept'', js ''application/pdf,*/*'')]\<rparr>
                       (report 40 (js ''Downloading with signed headers...'')
                          (Some (objectUrl e bucketName encodedFileName))
                          (w1\<lparr>lastGeneratedPresignedUrl :=
                                Some (objectUrl e bucketName encodedFileName)\<rparr>)))))"

definition downloadWithSimpleAuth ::
  "env \<Rightarrow> jsstring \<Rightarrow> jsstring \<Rightarrow> world \<Rightarrow> (error + downloadResult) \<times> world" where
  "downloadWithSimpleAuth e bucketName fileName w =
     (let w1 = report 20 (js ''Trying simple authentication...'') None w
      in case encodeS3Key fileName of
           Inl err \<Rightarrow> (Inl err, w1)
         | Inr encodedFileName \<Rightarrow>
             (case btoa e (accessKey e @ [58] @ secretKey e) of
                Inl err \<Rightarrow> (Inl err, w1)
              | Inr authHeader \<Rightarrow>
                  receive (js ''Simple auth'') (objectUrl e bucketName encodedFileName)
                    (fetchWithRetry e
                       \<lparr>url = objectUrl e bucketName encodedFileName,
                        headers = [(js ''Authorization'', js ''Basic '' @ authHeader),
                                   (js ''Accept'', js ''application/pdf,*/*'')]\<rparr>
                       (report 40 (js ''Downloading with basic auth...'')
                          (Some (objectUrl e bucketName encodedFileName))
                          (w1\<lparr>lastGeneratedPresignedUrl :=
                                Some (objectUrl e bucketName encodedFileName)\<rparr>)))))"

text \<open>
  \<open>downloadFile\<close>.  \<open>isCredentialIssue\<close> is the test of the \<open>catch\<close> block; the loop over
  the strategies carries the index \<open>i\<close> and \<open>lastError\<close>.  The outer \<open>catch\<close> throws the
  error it caught.
\<close>

definition isCredentialIssue :: "error \<Rightarrow> bool" where
  "isCredentialIssue err =
     (str_includes (message err) (js ''403'') \<or> str_includes (message err) (js ''Access denied''))"

definition announce :: "nat \<Rightarrow> world \<Rightarrow> world" where
  "announce i w =
     report (10 + i * 10) (js ''Trying download method '' @ showNat (i + 1) @ js ''...'')
       (lastGeneratedPresignedUrl w) w"

definition methodFailed :: "nat \<Rightarrow> error \<Rightarrow> world \<Rightarrow> world" where
  "methodFailed i err w = w\<lparr>trace := trace w @ [MethodFailed (i + 1) (message err)]\<rparr>"

definition methodSucceeded :: "nat \<Rightarrow> world \<Rightarrow> world" where
  "methodSucceeded i w = w\<lparr>trace := trace w @ [MethodSucceeded (i + 1)]\<rparr>"

fun tryStrategies ::
  "(world \<Rightarrow> (error + downloadResult) \<times> world) list \<Rightarrow> nat \<Rightarrow> error option \<Rightarrow> world \<Rightarrow>
   (error + downloadResult) \<times> world" where
  "tryStrategies [] i lastError w =
     (Inl (case lastError of
             Some err \<Rightarrow> err
           | None \<Rightarrow> Error (js ''All download methods failed'')), w)"
| "tryStrategies (strategy # strategies) i lastError w =
     (case strategy (announce i w) of
        (Inr result, w') \<Rightarrow>
          (Inr (result\<lparr>presignedUrl := lastGeneratedPresignedUrl w'\<rparr>), methodSucceeded i w')
      | (Inl err, w') \<Rightarrow>
          if isCredentialIssue err then (Inl err, methodFailed i err w')
          else tryStrategies strategies (i + 1) (Some err) (methodFailed i err w'))"

definition downloadFile ::
  "env \<Rightarrow> jsstring \<Rightarrow> jsstring \<Rightarrow> world \<Rightarrow> (error + downloadResult) \<times> world" where
  "downloadFile e bucketName fileName w =
     tryStrategies
       [downloadWithPresignedUrl e bucketName fileName,
        downloadWithDirectSigning e bucketName fileName,
        downloadWithSimpleAuth e bucketName fileName]
       0 None (report 5 (js ''Initializing download...'') None w)"

text \<open>
  For the examples: an environment whose signing primitives are fixed strings, over any
  network; a network that answers every request with \<open>403 Forbidden\<close>; a network on
  which every \<open>fetch\<close> throws, each time with another message (\<open>net\<close> and the length of
  the trace so far); the empty world; and the methods a trace reports as failed or
  succeeded, and the number of its calls of \<open>fetch\<close>.
\<close>

definition exampleEnv :: "(event list \<Rightarrow> request \<Rightarrow> error + response) \<Rightarrow> env" where
  "exampleEnv net =
     \<lparr>region = js ''eu-west-1'', accessKey = js ''AK'', secretKey = js ''SK'', network = net,
      presign = (\<lambda>bucketName uri. js ''https://'' @ bucketName @ uri @ js ''?X-Amz-Signature=0''),
      signHeaders = (\<lambda>bucketName key. [(js ''Authorization'', js ''AWS4-HMAC-SHA256 0'')]),
      btoa = (\<lambda>s. Inr (js ''QUs6U0s=''))\<rparr>"

definition forbidden :: "event list \<Rightarrow> request \<Rightarrow> error + response" where
  "forbidden tr req =
     Inr \<lparr>ok = False, status = 403, statusText = js ''Forbidden'', contentTypeHeader = None,
          arrayBuffer = Inr []\<rparr>"

definition unreachable :: "event list \<Rightarrow> request \<Rightarrow> error + response" where
  "unreachable tr req = Inl (Error (js ''net'' @ showNat (length tr)))"

definition emptyWorld :: world where
  "emptyWorld = \<lparr>trace = [], lastGeneratedPresignedUrl = None\<rparr>"

fun methodsReported :: "event list \<Rightarrow> event list" where
  "methodsReported [] = []"
| "methodsReported (MethodFailed k m # evs) = MethodFailed k m # methodsReported evs"
| "methodsReported (MethodSucceeded k # evs) = MethodSucceeded k # methodsReported evs"
| "methodsReported (ev # evs) = methodsReported evs"

fun fetchCount :: "event list \<Rightarrow> nat" where
  "fetchCount [] = 0"
| "fetchCount (Fetch req # evs) = Suc (fetchCount evs)"
| "fetchCount (ev # evs) = fetchCount evs"

section \<open>The paginator (\<open>splitIntoLines\<close>)\<close>

text \<open>
  The inner loop over the words of a paragraph, in both converters: the state is the
  list of lines pushed so far and \<open>currentLine\<close>.  An empty \<open>currentLine\<close> is falsy.
\<close>

fun wrapWords :: "nat \<Rightarrow> jsstring list \<Rightarrow> jsstring list \<Rightarrow> jsstring \<Rightarrow> jsstring list \<times> jsstring" where
  "wrapWords maxLength [] lines currentLine = (lines, currentLine)"
| "wrapWords maxLength (word # ws) lines currentLine =
     (let testLine = (if currentLine \<noteq> [] then currentLine @ [32] @ word else word)
      in if length testLine \<le> maxLength then wrapWords maxLength ws lines testLine
         else if currentLine \<noteq> [] then
           wrapWords maxLength ws (lines @ [currentLine])
             (if length word \<le> maxLength then word else take maxLength word)
         else wrapWords maxLength ws (lines @ [take maxLength word]) [])"

definition wrapParagraph :: "nat \<Rightarrow> jsstring list \<Rightarrow> jsstring \<Rightarrow> jsstring list" where
  "wrapParagraph maxLength lines paragraph =
     (case wrapWords maxLength (splitWs (trim paragraph)) lines [] of
        (lines', currentLine) \<Rightarrow>
          if currentLine \<noteq> [] then lines' @ [currentLine] else lines')"

text \<open>\<open>DocxToPdfConverter.splitIntoLines\<close>, with \<open>maxLength = options.maxCharsPerLine\<close>.\<close>

definition docxParagraph :: "nat \<Rightarrow> jsstring list \<Rightarrow> jsstring \<Rightarrow> jsstring list" where
  "docxParagraph maxLength lines paragraph =
     (if trim paragraph = [] then lines @ [[]]
      else wrapParagraph maxLength lines paragraph)"

definition splitIntoLines :: "nat \<Rightarrow> jsstring \<Rightarrow> jsstring list" where
  "splitIntoLines maxLength text = foldl (docxParagraph maxLength) [] (split_on 10 text)"

text \<open>
  \<open>ExcelCsvToPdfConverter.splitIntoLines\<close>: a paragraph that contains \<open>|\<close> or \<open>+\<close> is a
  table line and is pushed whole; other paragraphs are wrapped at 90 characters.
\<close>

definition xlsxParagraph :: "jsstring list \<Rightarrow> jsstring \<Rightarrow> jsstring list" where
  "xlsxParagraph lines paragraph =
     (if trim paragraph = [] then lines @ [[]]
      else if str_includes paragraph [124] \<or> str_includes paragraph [43]
        then lines @ [trim paragraph]
      else wrapParagraph 90 lines paragraph)"

definition xlsxSplitIntoLines :: "jsstring \<Rightarrow> jsstring list" where
  "xlsxSplitIntoLines text = foldl xlsxParagraph [] (split_on 10 text)"

section \<open>The PDF assembler (\<open>createPdfStructure\<close>)\<close>

text \<open>
  JavaScript numbers are IEEE 754 double-precision numbers.  \<open>toDouble x\<close> is the double
  nearest to the real number \<open>x\<close>: \<open>binade x\<close> is the exponent \<open>e\<close> with
  \<open>2^e \<le> |x| < 2^(e+1)\<close>, the doubles of that binade are the multiples of \<open>2^(e-52)\<close>,
  and a tie goes to the even multiple.  The range of the exponent is not modelled (no
  overflow to \<open>Infinity\<close>, no subnormal numbers); \<open>validGeometry\<close> below keeps the numbers
  of a geometry where that makes no difference.  A number written in the program, or
  given as an option, is a real number that stands for the double nearest to it; an
  arithmetic operation is the exact operation followed by \<open>toDouble\<close>.
\<close>

function bitLength :: "int \<Rightarrow> nat" where
  "bitLength n = (if n \<le> 0 then 0 else Suc (bitLength (n div 2)))"
  by pat_completeness auto
termination
  by (relation "measure nat") auto

declare bitLength.simps [simp del]

definition binade :: "real \<Rightarrow> int" where
  "binade x =
     (if 1 \<le> \<bar>x\<bar> then int (bitLength \<lfloor>\<bar>x\<bar>\<rfloor>) - 1
      else - int (bitLength (\<lceil>1 / \<bar>x\<bar>\<rceil> - 1)))"

definition pow2 :: "int \<Rightarrow> real" where
  "pow2 e = (if 0 \<le> e then 2 ^ nat e else 1 / 2 ^ nat (- e))"

definition roundTiesToEven :: "real \<Rightarrow> int" where
  "roundTiesToEven x =
     (let n = \<lfloor>x\<rfloor>; r = x - of_int n
      in if r < 1 / 2 then n else if 1 / 2 < r then n + 1 else if even n then n else n + 1)"

definition toDouble :: "real \<Rightarrow> real" where
  "toDouble x =
     (if x = 0 then 0
      else (let ulp = pow2 (binade x - 52) in of_int (roundTiesToEven (x / ulp)) * ulp))"

text \<open>
  The options of the two converters.  A numeric option is a real number standing for the
  double nearest to it; its rendering in a template string, \<open>Number::toString\<close> of that
  double, is a parameter \<open>numStr\<close>.  Page counts, object ids, lengths and offsets are
  non-negative integers, rendered by \<open>showNat\<close>; an array has fewer than \<open>2^32\<close> elements,
  and on integers of that size the double arithmetic of the page count and of the slices
  is exact.  \<open>maxCharsPerLine\<close> is used by the DOCX converter, \<open>maxColumnsPerPage\<close> by the
  spreadsheet converter.
\<close>

record options =
  fontSize :: real
  lineHeight :: real
  margin :: real
  pageWidth :: real
  pageHeight :: real
  maxCharsPerLine :: nat
  maxColumnsPerPage :: nat

definition docxDefaults :: options where
  "docxDefaults =
     \<lparr>fontSize = 12, lineHeight = 14, margin = 50, pageWidth = 595.28, pageHeight = 841.89,
      maxCharsPerLine = 75, maxColumnsPerPage = 6\<rparr>"

definition xlsxDefaults :: options where
  "xlsxDefaults =
     \<lparr>fontSize = 10, lineHeight = 16, margin = 40, pageWidth = 842, pageHeight = 595,
      maxCharsPerLine = 90, maxColumnsPerPage = 6\<rparr>"

text \<open>
  \<open>Math.floor((pageHeight - (margin * 2)) / lineHeight)\<close>, in double arithmetic.  The
  embedding covers the geometries \<open>validGeometry\<close>: the three numbers are zero or of a
  magnitude between \<open>2^-100\<close> and \<open>2^100\<close> (so that every intermediate result is a normal
  double or zero), the line height is positive, and there is room for at least one line.
  Elsewhere the JavaScript value can be \<open>Infinity\<close>, \<open>NaN\<close> or not positive, and nothing
  is claimed.
\<close>

definition maxLinesPerPage :: "options \<Rightarrow> nat" where
  "maxLinesPerPage opts =
     nat \<lfloor>toDouble
            (toDouble (toDouble (pageHeight opts) - toDouble (toDouble (margin opts) * 2)) /
             toDouble (lineHeight opts))\<rfloor>"

definition inRange :: "real \<Rightarrow> bool" where
  "inRange x = (x = 0 \<or> (1 / 2 ^ 100 \<le> \<bar>x\<bar> \<and> \<bar>x\<bar> \<le> 2 ^ 100))"

definition validGeometry :: "options \<Rightarrow> bool" where
  "validGeometry opts =
     (inRange (pageHeight opts) \<and> inRange (margin opts) \<and> inRange (lineHeight opts) \<and>
      0 < lineHeight opts \<and> 1 \<le> maxLinesPerPage opts)"

text \<open>
  \<open>Math.ceil(lines.length / maxLinesPerPage) || 1\<close>: a zero is falsy and replaced by 1.
  Both operands are integers; the ceiling of their double quotient is the ceiling of
  their exact quotient (lemma \<open>ceiling_double_quotient\<close> below, for fewer than \<open>2^53\<close>
  lines), which is what the embedding takes.
\<close>

definition totalPages :: "options \<Rightarrow> jsstring list \<Rightarrow> nat" where
  "totalPages opts lines =
     (let t = nat \<lceil>real (length lines) / real (maxLinesPerPage opts)\<rceil>
      in if t = 0 then 1 else t)"

text \<open>\<open>lines.slice(startLine, endLine)\<close> for one page.\<close>

definition pageLines :: "options \<Rightarrow> jsstring list \<Rightarrow> nat \<Rightarrow> jsstring list" where
  "pageLines opts lines pageNum =
     (let startLine = pageNum * maxLinesPerPage opts;
          endLine = min (startLine + maxLinesPerPage opts) (length lines)
      in take (endLine - startLine) (drop startLine lines))"

text \<open>
  The escaping of a line: backslash, parentheses, carriage return and newline get a
  backslash, then the string is cut (\<open>substring(0, limit)\<close>: 75 in the DOCX converter,
  90 in \<open>escapePdfString\<close> of the spreadsheet converter, which maps a falsy, that is
  empty, string to the empty string).
\<close>

definition escapeChain :: "jsstring \<Rightarrow> jsstring" where
  "escapeChain line =
     replaceChar 10 [92, 110]
       (replaceChar 13 [92, 114]
         (replaceChar 41 [92, 41]
           (replaceChar 40 [92, 40]
             (replaceChar 92 [92, 92] line))))"

definition docxEscape :: "jsstring \<Rightarrow> jsstring" where
  "docxEscape line = take 75 (escapeChain line)"

definition escapePdfString :: "jsstring \<Rightarrow> jsstring" where
  "escapePdfString str = (if str = [] then [] else take 90 (escapeChain str))"

text \<open>The content stream of page \<open>pageNum\<close> in the DOCX converter.\<close>

definition docxContentStream ::
  "(real \<Rightarrow> jsstring) \<Rightarrow> options \<Rightarrow> jsstring list \<Rightarrow> nat \<Rightarrow> jsstring" where
  "docxContentStream numStr opts lines pageNum =
     foldl (\<lambda>contentStream line.
              contentStream @ [40] @ docxEscape line @ js '') Tj\<newline>0 -'' @
                numStr (lineHeight opts) @ js '' Td\<newline>'')
       (js ''BT\<newline>/F1 12 Tf\<newline>50 750 Td\<newline>'')
       (pageLines opts lines pageNum)
     @ js ''ET''"

text \<open>
  The content stream of page \<open>pageNum\<close> in the spreadsheet converter: a title on the
  first page (\<open>fileName || 'Converted File'\<close>), a page number when there are several
  pages, then the lines.
\<close>

definition xlsxContentStream ::
  "(real \<Rightarrow> jsstring) \<Rightarrow> options \<Rightarrow> jsstring list \<Rightarrow> jsstring \<Rightarrow> nat \<Rightarrow> jsstring" where
  "xlsxContentStream numStr opts lines fileName pageNum =
     foldl (\<lambda>contentStream line.
              contentStream @ [40] @ escapePdfString line @ js '') Tj\<newline>0 -'' @
                numStr (lineHeight opts) @ js '' Td\<newline>'')
       (js ''BT\<newline>/F1 12 Tf\<newline>50 520 Td\<newline>'' @
        (if pageNum = 0 then
           js ''(Excel/CSV Table: '' @
           escapePdfString (if fileName \<noteq> [] then fileName else js ''Converted File'') @
           js '') Tj\<newline>0 -20 Td\<newline>'' @ js ''0 -10 Td\<newline>''
         else []) @
        (if 1 < totalPages opts lines then
           js ''/F1 10 Tf\<newline>(Page '' @ showNat (pageNum + 1) @ js '' of '' @
           showNat (totalPages opts lines) @ js '') Tj\<newline>0 -15 Td\<newline>/F1 '' @
           numStr (fontSize opts) @ js '' Tf\<newline>''
         else []))
       (pageLines opts lines pageNum)
     @ js ''ET''"

text \<open>
  From \<open>let pdf = '%PDF-1.4\n'\<close> on the two converters run the same code, up to the
  name of the base font.  The state is the string \<open>pdf\<close>, the counter \<open>currentPos\<close> and
  the array \<open>xrefTable\<close>; \<open>emitObject\<close> is the recurring
  \<open>xrefTable.push(currentPos); pdf += content; currentPos += content.length\<close>.
\<close>

record pdfState =
  pdf :: jsstring
  currentPos :: nat
  xrefTable :: "nat list"

definition emitObject :: "jsstring \<Rightarrow> pdfState \<Rightarrow> pdfState" where
  "emitObject content st =
     \<lparr>pdf = pdf st @ content,
      currentPos = currentPos st + length content,
      xrefTable = xrefTable st @ [currentPos st]\<rparr>"

definition catalogContent :: jsstring where
  "catalogContent =
     js ''1 0 obj\<newline><<\<newline>/Type /Catalog\<newline>/Pages 2 0 R\<newline>>>\<newline>endobj\<newline>''"

definition pageRefs :: "nat \<Rightarrow> jsstring list" where
  "pageRefs count = map (\<lambda>i. showNat (3 + i * 2) @ js '' 0 R'') [0..<count]"

definition pagesContent :: "nat \<Rightarrow> jsstring" where
  "pagesContent count =
     js ''2 0 obj\<newline><<\<newline>/Type /Pages\<newline>/Kids ['' @ join [32] (pageRefs count) @
     js '']\<newline>/Count '' @ showNat count @ js ''\<newline>>>\<newline>endobj\<newline>''"

definition pageContent ::
  "jsstring \<Rightarrow> (real \<Rightarrow> jsstring) \<Rightarrow> options \<Rightarrow> nat \<Rightarrow> nat \<Rightarrow> jsstring" where
  "pageContent baseFont numStr opts pageObjId contentObjId =
     showNat pageObjId @
     js '' 0 obj\<newline><<\<newline>/Type /Page\<newline>/Parent 2 0 R\<newline>/MediaBox [0 0 '' @
     numStr (pageWidth opts) @ [32] @ numStr (pageHeight opts) @
     js '']\<newline>/Resources <<\<newline>/Font <<\<newline>/F1 <<\<newline>/Type /Font\<newline>/Subtype /Type1\<newline>/BaseFont /'' @
     baseFont @
     js ''\<newline>>>\<newline>>>\<newline>>>\<newline>/Contents '' @ showNat contentObjId @
     js '' 0 R\<newline>>>\<newline>endobj\<newline>''"

definition streamContent :: "nat \<Rightarrow> jsstring \<Rightarrow> jsstring" where
  "streamContent contentObjId contentStream =
     showNat contentObjId @ js '' 0 obj\<newline><<\<newline>/Length '' @
     showNat (length contentStream) @ js ''\<newline>>>\<newline>stream\<newline>'' @ contentStream @
     js ''\<newline>endstream\<newline>endobj\<newline>''"

text \<open>One round of the loop over the pages: the page object, then its content stream.\<close>

definition emitPage ::
  "jsstring \<Rightarrow> (real \<Rightarrow> jsstring) \<Rightarrow> options \<Rightarrow> (nat \<Rightarrow> jsstring) \<Rightarrow> nat \<Rightarrow> pdfState \<Rightarrow> pdfState" where
  "emitPage baseFont numStr opts contentStreams pageNum st =
     (let pageObjId = 3 + pageNum * 2;
          contentObjId = pageObjId + 1
      in emitObject (streamContent contentObjId (contentStreams pageNum))
           (emitObject (pageContent baseFont numStr opts pageObjId contentObjId) st))"

text \<open>The state after the catalog, the page tree and all pages have been written.\<close>

definition pdfObjects ::
  "jsstring \<Rightarrow> (real \<Rightarrow> jsstring) \<Rightarrow> options \<Rightarrow> (nat \<Rightarrow> jsstring) \<Rightarrow> nat \<Rightarrow> pdfState" where
  "pdfObjects baseFont numStr opts contentStreams count =
     fold (emitPage baseFont numStr opts contentStreams) [0..<count]
       (emitObject (pagesContent count)
         (emitObject catalogContent
           \<lparr>pdf = js ''%PDF-1.4\<newline>'', currentPos = length (js ''%PDF-1.4\<newline>''),
            xrefTable = []\<rparr>))"

text \<open>The cross-reference table and the trailer, appended to \<open>pdf\<close>.\<close>

definition xrefSection :: "nat list \<Rightarrow> nat \<Rightarrow> jsstring" where
  "xrefSection table xrefPos =
     js ''xref\<newline>'' @
     js ''0 '' @ showNat (length table + 1) @ js ''\<newline>'' @
     js ''0000000000 65535 f \<newline>'' @
     foldl (\<lambda>acc pos. acc @ padStart 10 48 (showNat pos) @ js '' 00000 n \<newline>'') [] table @
     js ''trailer\<newline>'' @
     js ''<<\<newline>/Size '' @ showNat (length table + 1) @ js ''\<newline>/Root 1 0 R\<newline>>>\<newline>'' @
     js ''startxref\<newline>'' @
     showNat xrefPos @ js ''\<newline>'' @
     js ''%%EOF\<newline>''"

definition pdfString ::
  "jsstring \<Rightarrow> (real \<Rightarrow> jsstring) \<Rightarrow> options \<Rightarrow> (nat \<Rightarrow> jsstring) \<Rightarrow> nat \<Rightarrow> jsstring" where
  "pdfString baseFont numStr opts contentStreams count =
     (let st = pdfObjects baseFont numStr opts contentStreams count
      in pdf st @ xrefSection (xrefTable st) (currentPos st))"

text \<open>\<open>DocxToPdfConverter.createPdfStructure\<close>: the value of \<open>pdf\<close>, and the bytes returned.\<close>

definition docxPdf :: "(real \<Rightarrow> jsstring) \<Rightarrow> options \<Rightarrow> jsstring list \<Rightarrow> jsstring" where
  "docxPdf numStr opts lines =
     pdfString (js ''Helvetica'') numStr opts (docxContentStream numStr opts lines)
       (totalPages opts lines)"

definition createPdfStructure :: "(real \<Rightarrow> jsstring) \<Rightarrow> options \<Rightarrow> jsstring list \<Rightarrow> bytes" where
  "createPdfStructure numStr opts lines = textEncode (docxPdf numStr opts lines)"

text \<open>\<open>ExcelCsvToPdfConverter.createPdfStructure\<close>.\<close>

definition xlsxPdf ::
  "(real \<Rightarrow> jsstring) \<Rightarrow> options \<Rightarrow> jsstring list \<Rightarrow> jsstring \<Rightarrow> jsstring" where
  "xlsxPdf numStr opts lines fileName =
     pdfString (js ''Courier'') numStr opts (xlsxContentStream numStr opts lines fileName)
       (totalPages opts lines)"

definition xlsxCreatePdfStructure ::
  "(real \<Rightarrow> jsstring) \<Rightarrow> options \<Rightarrow> jsstring list \<Rightarrow> jsstring \<Rightarrow> bytes" where
  "xlsxCreatePdfStructure numStr opts lines fileName =
     textEncode (xlsxPdf numStr opts lines fileName)"

text \<open>
  The array \<open>contentStreams\<close> and the array \<open>xrefTable\<close> as they stand when
  \<open>createPdfStructure\<close> returns, for each converter.
\<close>

definition docxContentStreams ::
  "(real \<Rightarrow> jsstring) \<Rightarrow> options \<Rightarrow> jsstring list \<Rightarrow> jsstring list" where
  "docxContentStreams numStr opts lines =
     map (docxContentStream numStr opts lines) [0..<totalPages opts lines]"

definition docxXrefTable :: "(real \<Rightarrow> jsstring) \<Rightarrow> options \<Rightarrow> jsstring list \<Rightarrow> nat list" where
  "docxXrefTable numStr opts lines =
     xrefTable (pdfObjects (js ''Helvetica'') numStr opts (docxContentStream numStr opts lines)
       (totalPages opts lines))"

definition xlsxContentStreams ::
  "(real \<Rightarrow> jsstring) \<Rightarrow> options \<Rightarrow> jsstring list \<Rightarrow> jsstring \<Rightarrow> jsstring list" where
  "xlsxContentStreams numStr opts lines fileName =
     map (xlsxContentStream numStr opts lines fileName) [0..<totalPages opts lines]"

definition xlsxXrefTable ::
  "(real \<Rightarrow> jsstring) \<Rightarrow> options \<Rightarrow> jsstring list \<Rightarrow> jsstring \<Rightarrow> nat list" where
  "xlsxXrefTable numStr opts lines fileName =
     xrefTable (pdfObjects (js ''Courier'') numStr opts
       (xlsxContentStream numStr opts lines fileName) (totalPages opts lines))"

section \<open>The table extractor (\<open>extractSimpleTableText\<close>)\<close>

text \<open>
  A workbook as the spreadsheet library hands it over: the sheet names in order, and for
  a name its worksheet, if there is one.  A worksheet is taken as the array of rows that
  \<open>XLSX.utils.sheet_to_json\<close> makes of it (\<open>header: 1, raw: false, defval: ''\<close>): every
  cell is a string.
\<close>

record workbook =
  SheetNames :: "jsstring list"
  Sheets :: "jsstring \<Rightarrow> jsstring list list option"

text \<open>The callback of \<open>limitedRow.map\<close>: \<open>String(cell || '').trim()\<close>, cut when longer than 18.\<close>

definition formatCell :: "jsstring \<Rightarrow> jsstring" where
  "formatCell cell =
     (let cellValue = trim cell
      in if 18 < length cellValue then take 15 cellValue @ js ''...'' else cellValue)"

text \<open>The callback of \<open>jsonData.forEach\<close>, on \<open>textContent\<close>, for the row at \<open>index\<close>.\<close>

definition appendRow :: "options \<Rightarrow> jsstring \<Rightarrow> jsstring list \<times> nat \<Rightarrow> jsstring" where
  "appendRow opts textContent rowAt =
     (case rowAt of
        (row, index) \<Rightarrow>
          if row \<noteq> [] then
            (let limitedRow = take (maxColumnsPerPage opts) row;
                 formattedCells = map formatCell limitedRow;
                 tableRow = join (js ''| '') (map (padEnd 20 32) formattedCells);
                 withRow = textContent @ js ''| '' @ tableRow @ js ''|\<newline>''
             in if index = 0 then
                  withRow @ js ''+-'' @
                  join (js ''+-'') (map (\<lambda>c. padEnd 20 45 []) formattedCells) @ js ''+\<newline>''
                else withRow)
          else textContent)"

text \<open>One round of the loop over the sheet names.\<close>

definition appendSheet :: "options \<Rightarrow> workbook \<Rightarrow> jsstring \<Rightarrow> jsstring \<Rightarrow> jsstring" where
  "appendSheet opts wb textContent sheetName =
     (case Sheets wb sheetName of
        None \<Rightarrow> textContent
      | Some jsonData \<Rightarrow>
          (let withBanner =
                 (if 1 < length (SheetNames wb)
                  then textContent @ js ''\<newline>=== Sheet: '' @ sheetName @ js '' ===\<newline>\<newline>''
                  else textContent)
           in if 0 < length jsonData then
                (let withRows =
                       foldl (appendRow opts) withBanner (zip jsonData [0..<length jsonData]);
                     withBorder =
                       (if 1 < length jsonData then
                          withRows @ js ''+-'' @
                          join (js ''+-'')
                            (map (\<lambda>c. padEnd 20 45 [])
                               (take (maxColumnsPerPage opts) (last jsonData))) @
                          js ''+\<newline>''
                        else withRows)
                 in withBorder @ js ''\<newline>'')
              else withBanner))"

definition extractSimpleTableText :: "options \<Rightarrow> workbook \<Rightarrow> jsstring" where
  "extractSimpleTableText opts wb = trim (foldl (appendSheet opts wb) [] (SheetNames wb))"

text \<open>
  The table as the specification describes it, line by line: a row is a line of cells,
  each cut to 18 characters and padded to 20, between bars; a separator line has the
  width of its row; a sheet is its header row, a separator, the other rows, a separator
  after the last row when there is more than one row, and an empty line; a sheet of a
  workbook with several sheets is preceded by a banner; the text is the lines, each
  ended by a newline, trimmed.
\<close>

definition tableLine :: "jsstring list \<Rightarrow> jsstring" where
  "tableLine cells =
     js ''| '' @ join (js ''| '') (map (\<lambda>cell. padEnd 20 32 (formatCell cell)) cells) @ js ''|''"

definition separatorLine :: "nat \<Rightarrow> jsstring" where
  "separatorLine columns =
     js ''+-'' @ join (js ''+-'') (replicate columns (replicate 20 45)) @ js ''+''"

definition sheetLines :: "nat \<Rightarrow> jsstring list list \<Rightarrow> jsstring list" where
  "sheetLines maxColumns rows =
     (case rows of
        [] \<Rightarrow> []
      | header # others \<Rightarrow>
          [tableLine (take maxColumns header),
           separatorLine (length (take maxColumns header))] @
          map (\<lambda>row. tableLine (take maxColumns row)) others @
          (if others \<noteq> [] then [separatorLine (length (take maxColumns (last others)))]
           else []) @
          [[]])"

definition bannerLines :: "jsstring \<Rightarrow> jsstring list" where
  "bannerLines sheetName = [[], js ''=== Sheet: '' @ sheetName @ js '' ==='', []]"

definition workbookLines :: "nat \<Rightarrow> workbook \<Rightarrow> jsstring list" where
  "workbookLines maxColumns wb =
     concat (map (\<lambda>sheetName.
                    case Sheets wb sheetName of
                      None \<Rightarrow> []
                    | Some rows \<Rightarrow>
                        (if 1 < length (SheetNames wb) then bannerLines sheetName else []) @
                        sheetLines maxColumns rows)
               (SheetNames wb))"

definition exampleWorkbook :: workbook where
  "exampleWorkbook =
     \<lparr>SheetNames = [js ''S1'', js ''S2''],
      Sheets = (\<lambda>sheetName.
        if sheetName = js ''S1''
          then Some [[js ''name'', js '' a very long header cell text ''], [js ''x'', js ''y'']]
        else if sheetName = js ''S2'' then Some [[js ''only'']]
        else None)\<rparr>"

definition unlines :: "jsstring list \<Rightarrow> jsstring" where
  "unlines ls = concat (map (\<lambda>l. l @ [10]) ls)"

text \<open>The rows of the workbook: every row of every worksheet a sheet name stands for.\<close>

definition workbookRows :: "workbook \<Rightarrow> jsstring list set" where
  "workbookRows wb =
     {row. \<exists>sheetName rows. sheetName \<in> set (SheetNames wb) \<and>
             Sheets wb sheetName = Some rows \<and> row \<in> set rows}"

section \<open>The converters (\<open>convertToPdf\<close>)\<close>

text \<open>
  \<open>cleanText\<close> and \<open>cleanTableText\<close>.  \<open>collapseWhiteSpace\<close> is \<open>.replace(/\s+/g, ' ')\<close>,
  \<open>stripAfterNewline\<close> is \<open>.replace(/\n\s+/g, '\n')\<close>.  The character classes
  \<open>[^\x20-\x7E\n]\<close> and \<open>[^\x20-\x7E\n\|\+\-]\<close> match the same code units.
\<close>

function collapseWhiteSpace :: "jsstring \<Rightarrow> jsstring" where
  "collapseWhiteSpace [] = []"
| "collapseWhiteSpace (c # cs) =
     (if isWhiteSpace c then 32 # collapseWhiteSpace (dropWhile isWhiteSpace cs)
      else c # collapseWhiteSpace cs)"
  by pat_completeness auto
termination
  by (relation "measure length") (auto simp: length_dropWhile_le less_Suc_eq_le)

function stripAfterNewline :: "jsstring \<Rightarrow> jsstring" where
  "stripAfterNewline [] = []"
| "stripAfterNewline (c # cs) =
     (if c = 10 \<and> cs \<noteq> [] \<and> isWhiteSpace (hd cs)
      then 10 # stripAfterNewline (dropWhile isWhiteSpace cs)
      else c # stripAfterNewline cs)"
  by pat_completeness auto
termination
  by (relation "measure length") (auto simp: length_dropWhile_le less_Suc_eq_le)

definition cleanText :: "jsstring \<Rightarrow> jsstring" where
  "cleanText text =
     trim (stripAfterNewline (collapseWhiteSpace
       (replaceChars (\<lambda>c. \<not> ((32 \<le> c \<and> c \<le> 126) \<or> c = 10)) (\<lambda>c. [32])
         (replaceChar 9 (js ''    '')
           (replaceChar 13 [10]
             (replaceAll [13, 10] [10] text))))))"

definition cleanTableText :: "jsstring \<Rightarrow> jsstring" where
  "cleanTableText text =
     trim (stripAfterNewline (collapseWhiteSpace
       (replaceChars
          (\<lambda>c. \<not> ((32 \<le> c \<and> c \<le> 126) \<or> c = 10 \<or> c = 124 \<or> c = 43 \<or> c = 45)) (\<lambda>c. [32])
         (replaceChar 9 (js ''    '')
           (replaceChar 13 [10]
             (replaceAll [13, 10] [10] text))))))"

text \<open>
  The DOCX converter.  A \<open>Blob\<close> is its bytes.  \<open>createPdfManually\<close> catches an error and
  throws it again; nothing in it throws in the embedding.  \<open>createErrorPdf\<close> returns the
  promise of \<open>createPdfManually\<close> from inside its \<open>try\<close> without awaiting it, so a
  rejection of that promise is not caught there: the \<open>catch\<close> with the hand-written
  minimal document guards only the building of the text.  The text extraction rests on
  \<open>JSZip\<close> and is a parameter: any function from the buffer to an error or a text.
\<close>

definition createPdfManually :: "(real \<Rightarrow> jsstring) \<Rightarrow> options \<Rightarrow> jsstring \<Rightarrow> error + bytes" where
  "createPdfManually numStr opts textContent =
     Inr (createPdfStructure numStr opts
            (splitIntoLines (maxCharsPerLine opts) (cleanText textContent)))"

definition docxErrorText :: "jsstring \<Rightarrow> jsstring" where
  "docxErrorText errorMessage =
     js ''DOCX Conversion Error\<newline>\<newline>The DOCX file could not be converted to PDF.\<newline>\<newline>Error: '' @
     errorMessage @
     js ''\<newline>\<newline>This may happen with:\<newline>'' @ [8226] @ js '' Complex formatting\<newline>'' @
     [8226] @ js '' Password-protected files\<newline>'' @ [8226] @ js '' Corrupted documents\<newline>\<newline>Please try:\<newline>'' @
     [8226] @ js '' Converting to PDF manually\<newline>'' @ [8226] @ js '' Using simpler formatting\<newline>'' @
     [8226] @ js '' Checking the original file''"

definition docxMinimalPdf :: jsstring where
  "docxMinimalPdf =
     js ''%PDF-1.4\<newline>1 0 obj\<newline><<\<newline>/Type /Catalog\<newline>/Pages 2 0 R\<newline>>>\<newline>endobj\<newline>2 0 obj\<newline><<\<newline>/Type /Pages\<newline>/Kids [3 0 R]\<newline>/Count 1\<newline>>>\<newline>endobj\<newline>3 0 obj\<newline><<\<newline>/Type /Page\<newline>/Parent 2 0 R\<newline>/MediaBox [0 0 595.28 841.89]\<newline>/Resources <<\<newline>/Font <<\<newline>/F1 <<\<newline>/Type /Font\<newline>/Subtype /Type1\<newline>/BaseFont /Helvetica\<newline>>>\<newline>>>\<newline>>>\<newline>/Contents 4 0 R\<newline>>>\<newline>endobj\<newline>4 0 obj\<newline><<\<newline>/Length 53\<newline>>>\<newline>stream\<newline>BT\<newline>/F1 12 Tf\<newline>50 750 Td\<newline>(DOCX Conversion Failed) Tj\<newline>ET\<newline>endstream\<newline>endobj\<newline>xref\<newline>0 5\<newline>0000000000 65535 f \<newline>0000000009 00000 n \<newline>0000000058 00000 n \<newline>0000000115 00000 n \<newline>0000000344 00000 n \<newline>trailer\<newline><<\<newline>/Size 5\<newline>/Root 1 0 R\<newline>>>\<newline>startxref\<newline>447\<newline>%%EOF''"

definition createErrorPdf :: "(real \<Rightarrow> jsstring) \<Rightarrow> options \<Rightarrow> jsstring \<Rightarrow> error + bytes" where
  "createErrorPdf numStr opts errorMessage =
     createPdfManually numStr opts (docxErrorText errorMessage)"

definition convertToPdf ::
  "('buf \<Rightarrow> error + jsstring) \<Rightarrow> (real \<Rightarrow> jsstring) \<Rightarrow> options \<Rightarrow> 'buf \<Rightarrow> error + bytes" where
  "convertToPdf extractTextFromDocx numStr opts docxBuffer =
     (case (case extractTextFromDocx docxBuffer of
              Inl err \<Rightarrow> Inl err
            | Inr textContent \<Rightarrow>
                if textContent = [] \<or> length (trim textContent) = 0
                then Inl (Error (js ''No text content found in DOCX file''))
                else createPdfManually numStr opts textContent) of
        Inr pdfBlob \<Rightarrow> Inr pdfBlob
      | Inl err \<Rightarrow>
          (case createErrorPdf numStr opts (message err) of
             Inr pdfBlob \<Rightarrow> Inr pdfBlob
           | Inl fallbackError \<Rightarrow>
               Inl (Error (js ''DOCX conversion failed: '' @ message err @
                           js ''. Fallback also failed: '' @ message fallbackError))))"

text \<open>
  The spreadsheet converter.  \<open>createSimpleTablePdf\<close> is synchronous, so the \<open>catch\<close> of
  its \<open>createErrorPdf\<close> does catch.  Parsing rests on the spreadsheet library and is a
  parameter, standing for \<open>parseFile(fileBuffer, getFileExtension(fileName))\<close>: any
  function from the buffer and the file name to an error or a workbook (a workbook that
  is missing or has no \<open>SheetNames\<close> is one with no sheet names).
\<close>

definition createSimpleTablePdf ::
  "(real \<Rightarrow> jsstring) \<Rightarrow> options \<Rightarrow> jsstring \<Rightarrow> jsstring \<Rightarrow> error + bytes" where
  "createSimpleTablePdf numStr opts textContent fileName =
     Inr (xlsxCreatePdfStructure numStr opts
            (xlsxSplitIntoLines (cleanTableText textContent)) fileName)"

definition xlsxErrorText :: "jsstring \<Rightarrow> jsstring \<Rightarrow> jsstring" where
  "xlsxErrorText errorMessage fileName =
     js ''Excel/CSV Table Conversion Error\<newline>\<newline>The Excel/CSV file could not be converted to PDF.\<newline>\<newline>File: '' @
     (if fileName \<noteq> [] then fileName else js ''Unknown'') @ js ''\<newline>Error: '' @ errorMessage @
     js ''\<newline>\<newline>This may happen with:\<newline>'' @ [8226] @ js '' Complex Excel formulas\<newline>'' @
     [8226] @ js '' Large files with many columns\<newline>'' @
     [8226] @ js '' Corrupted spreadsheet files\<newline>'' @
     [8226] @ js '' Unsupported Excel features\<newline>\<newline>Please try:\<newline>'' @
     [8226] @ js '' Converting to PDF manually\<newline>'' @
     [8226] @ js '' Using simpler Excel/CSV format\<newline>'' @ [8226] @ js '' Reducing file size\<newline>'' @
     [8226] @ js '' Checking the original file''"

definition xlsxMinimalPdf :: jsstring where
  "xlsxMinimalPdf =
     js ''%PDF-1.4\<newline>1 0 obj\<newline><<\<newline>/Type /Catalog\<newline>/Pages 2 0 R\<newline>>>\<newline>endobj\<newline>2 0 obj\<newline><<\<newline>/Type /Pages\<newline>/Kids [3 0 R]\<newline>/Count 1\<newline>>>\<newline>endobj\<newline>3 0 obj\<newline><<\<newline>/Type /Page\<newline>/Parent 2 0 R\<newline>/MediaBox [0 0 842 595]\<newline>/Resources <<\<newline>/Font <<\<newline>/F1 <<\<newline>/Type /Font\<newline>/Subtype /Type1\<newline>/BaseFont /Courier\<newline>>>\<newline>>>\<newline>>>\<newline>/Contents 4 0 R\<newline>>>\<newline>endobj\<newline>4 0 obj\<newline><<\<newline>/Length 58\<newline>>>\<newline>stream\<newline>BT\<newline>/F1 12 Tf\<newline>50 520 Td\<newline>(Excel/CSV Table Conversion Failed) Tj\<newline>ET\<newline>endstream\<newline>endobj\<newline>xref\<newline>0 5\<newline>0000000000 65535 f \<newline>0000000009 00000 n \<newline>0000000058 00000 n \<newline>0000000115 00000 n \<newline>0000000356 00000 n \<newline>trailer\<newline><<\<newline>/Size 5\<newline>/Root 1 0 R\<newline>>>\<newline>startxref\<newline>464\<newline>%%EOF''"

definition xlsxCreateErrorPdf ::
  "(real \<Rightarrow> jsstring) \<Rightarrow> options \<Rightarrow> jsstring \<Rightarrow> jsstring \<Rightarrow> error + bytes" where
  "xlsxCreateErrorPdf numStr opts errorMessage fileName =
     (case createSimpleTablePdf numStr opts (xlsxErrorText errorMessage fileName) fileName of
        Inr pdfBlob \<Rightarrow> Inr pdfBlob
      | Inl err \<Rightarrow> Inr (textEncode xlsxMinimalPdf))"

definition xlsxConvertToPdf ::
  "('buf \<Rightarrow> jsstring \<Rightarrow> error + workbook) \<Rightarrow> (real \<Rightarrow> jsstring) \<Rightarrow> options \<Rightarrow> 'buf \<Rightarrow>
   jsstring \<Rightarrow> error + bytes" where
  "xlsxConvertToPdf parseFile numStr opts fileBuffer fileName =
     (case (case parseFile fileBuffer fileName of
              Inl err \<Rightarrow> Inl err
            | Inr wb \<Rightarrow>
                if length (SheetNames wb) = 0 then Inl (Error (js ''No sheets found in file''))
                else
                  (let textContent = extractSimpleTableText opts wb
                   in if textContent = [] \<or> length (trim textContent) = 0
                      then Inl (Error (js ''No data found in file''))
                      else createSimpleTablePdf numStr opts textContent fileName)) of
        Inr pdfBlob \<Rightarrow> Inr pdfBlob
      | Inl err \<Rightarrow>
          (case xlsxCreateErrorPdf numStr opts (message err) fileName of
             Inr pdfBlob \<Rightarrow> Inr pdfBlob
           | Inl fallbackError \<Rightarrow>
               Inl (Error (js ''Excel/CSV conversion failed: '' @ message err @
                           js ''. Fallback also failed: '' @ message fallbackError))))"

text \<open>
  For the examples: an extraction and a parser that fail on every buffer, and the lines of
  the diagnostic document the spreadsheet converter then builds.
\<close>

definition extractFails :: "unit \<Rightarrow> error + jsstring" where
  "extractFails docxBuffer =
     Inl (Error (js ''Failed to extract text from DOCX: Could not find document.xml in DOCX file''))"

definition parseFails :: "unit \<Rightarrow> jsstring \<Rightarrow> error + workbook" where
  "parseFails fileBuffer fileName = Inl (Error (js ''Failed to parse CSV: bad data''))"

definition xlsxErrorLines :: "jsstring \<Rightarrow> jsstring \<Rightarrow> jsstring list" where
  "xlsxErrorLines errorMessage fileName =
     xlsxSplitIntoLines (cleanTableText (xlsxErrorText errorMessage fileName))"

section \<open>What a well-formed output is\<close>

text \<open>
  The properties of the specification, over the bytes \<open>out\<close> of a document, written from
  the file format and not from the program:
  \<open>objectAt out off n\<close>: at byte offset \<open>off\<close> stands the first byte of \<open>n 0 obj\<close>;
  \<open>streamAt out off n body\<close>: at byte offset \<open>off\<close> stands the stream object \<open>n\<close> whose
  declared \<open>/Length\<close> is the number of bytes of \<open>body\<close>, followed by exactly \<open>body\<close> and
  \<open>endstream\<close>;
  \<open>printedXref table pos\<close>: the bytes of a cross-reference section for the objects
  \<open>1, 2, ...\<close> at the offsets \<open>table\<close> (one entry of ten digits each, after the entry of
  the free object 0), of the trailer with \<open>/Size\<close> and \<open>/Root 1 0 R\<close>, of \<open>startxref\<close> with
  the offset \<open>pos\<close>, and of the end-of-file marker;
  \<open>pdfWellFormed out table streams\<close>: the header and the end-of-file marker are in place,
  \<open>out\<close> ends with the cross-reference section of \<open>table\<close>, which starts at the byte offset
  that \<open>startxref\<close> names, entry \<open>k\<close> of it points at the first byte of object \<open>k + 1\<close>,
  and the content stream of page \<open>i\<close> is the exact-length stream object \<open>2 i + 4\<close>.
\<close>

definition startsWith :: "bytes \<Rightarrow> bytes \<Rightarrow> bool" where
  "startsWith bs p = (take (length p) bs = p)"

definition endsWith :: "bytes \<Rightarrow> bytes \<Rightarrow> bool" where
  "endsWith bs p = (drop (length bs - length p) bs = p)"

definition objectAt :: "bytes \<Rightarrow> nat \<Rightarrow> nat \<Rightarrow> bool" where
  "objectAt out off n = startsWith (drop off out) (textEncode (showNat n @ js '' 0 obj\<newline>''))"

definition streamAt :: "bytes \<Rightarrow> nat \<Rightarrow> nat \<Rightarrow> bytes \<Rightarrow> bool" where
  "streamAt out off n body =
     startsWith (drop off out)
       (textEncode (showNat n @ js '' 0 obj\<newline><<\<newline>/Length '' @ showNat (length body) @
                    js ''\<newline>>>\<newline>stream\<newline>'') @
        body @ textEncode (js ''\<newline>endstream\<newline>endobj\<newline>''))"

definition xrefEntry :: "nat \<Rightarrow> bytes" where
  "xrefEntry off =
     replicate (10 - length (showNat off)) 48 @ textEncode (showNat off @ js '' 00000 n \<newline>'')"

definition printedXref :: "nat list \<Rightarrow> nat \<Rightarrow> bytes" where
  "printedXref table pos =
     textEncode (js ''xref\<newline>0 '' @ showNat (length table + 1) @
                 js ''\<newline>0000000000 65535 f \<newline>'') @
     concat (map xrefEntry table) @
     textEncode (js ''trailer\<newline><<\<newline>/Size '' @ showNat (length table + 1) @
                 js ''\<newline>/Root 1 0 R\<newline>>>\<newline>startxref\<newline>'' @ showNat pos @
                 js ''\<newline>%%EOF\<newline>'')"

definition pdfWellFormed :: "bytes \<Rightarrow> nat list \<Rightarrow> jsstring list \<Rightarrow> bool" where
  "pdfWellFormed out table streams =
     (startsWith out (textEncode (js ''%PDF-1.4\<newline>'')) \<and>
      endsWith out (textEncode (js ''%%EOF\<newline>'')) \<and>
      (\<exists>body. out = body @ printedXref table (length body)) \<and>
      (\<forall>k < length table. objectAt out (table ! k) (k + 1)) \<and>
      (\<forall>i < length streams. streamAt out (table ! (2 * i + 3)) (2 * i + 4) (textEncode (streams ! i))))"

text \<open>For the examples: 33 lines, one more than a page of the spreadsheet converter holds.\<close>

definition exampleLines :: "jsstring list" where
  "exampleLines = replicate 33 (js ''a'')"

text \<open>
  The page tree of the specification, over the bytes of the objects of a document:
  \<open>catalogText\<close> is the catalog, object 1, which names object 2 as the page tree;
  \<open>pageTreeText p\<close> is the page tree, object 2, of \<open>p\<close> pages: its \<open>/Kids\<close> are the objects
  \<open>3, 5, ..., 2 p + 1\<close> and its \<open>/Count\<close> is \<open>p\<close>;
  \<open>isPageObject n c t\<close>: \<open>t\<close> is object \<open>n\<close>, a page whose parent is object 2 and whose
  contents are object \<open>c\<close>;
  \<open>isStreamObject n t\<close>: \<open>t\<close> is object \<open>n\<close>, a stream;
  \<open>declaresPage t\<close>: whatever its number, the object \<open>t\<close> is of \<open>/Type /Page\<close> (the
  dictionary opens on the line after \<open>n 0 obj\<close>).
\<close>

definition catalogText :: bytes where
  "catalogText =
     textEncode (js ''1 0 obj\<newline><<\<newline>/Type /Catalog\<newline>/Pages 2 0 R\<newline>>>\<newline>endobj\<newline>'')"

definition pageTreeText :: "nat \<Rightarrow> bytes" where
  "pageTreeText p =
     textEncode (js ''2 0 obj\<newline><<\<newline>/Type /Pages\<newline>/Kids ['' @
                 join (js '' '') (map (\<lambda>i. showNat (2 * i + 3) @ js '' 0 R'') [0..<p]) @
                 js '']\<newline>/Count '' @ showNat p @ js ''\<newline>>>\<newline>endobj\<newline>'')"

definition isPageObject :: "nat \<Rightarrow> nat \<Rightarrow> bytes \<Rightarrow> bool" where
  "isPageObject n c t =
     (startsWith t
        (textEncode (showNat n @ js '' 0 obj\<newline><<\<newline>/Type /Page\<newline>/Parent 2 0 R\<newline>'')) \<and>
      endsWith t
        (textEncode (js ''/Contents '' @ showNat c @ js '' 0 R\<newline>>>\<newline>endobj\<newline>'')))"

definition isStreamObject :: "nat \<Rightarrow> bytes \<Rightarrow> bool" where
  "isStreamObject n t =
     (startsWith t (textEncode (showNat n @ js '' 0 obj\<newline><<\<newline>/Length '')) \<and>
      endsWith t (textEncode (js ''\<newline>endstream\<newline>endobj\<newline>'')))"

definition declaresPage :: "bytes \<Rightarrow> bool" where
  "declaresPage t =
     startsWith (drop 1 (dropWhile (\<lambda>b. b \<noteq> 10) t))
       (textEncode (js ''<<\<newline>/Type /Page\<newline>''))"

text \<open>
  \<open>hasPageTree out p\<close>: the bytes \<open>out\<close> are the header, then \<open>2 p + 2\<close> objects, then a
  rest that begins with \<open>xref\<close>; the first object is the catalog and the second the page
  tree of \<open>p\<close> pages; for every \<open>i < p\<close> the objects \<open>2 i + 3\<close> and \<open>2 i + 4\<close> follow as a
  page and the stream that is its contents; and exactly \<open>p\<close> of the objects are of
  \<open>/Type /Page\<close>.
\<close>

definition hasPageTree :: "bytes \<Rightarrow> nat \<Rightarrow> bool" where
  "hasPageTree out p =
     (\<exists>objs rest.
        out = textEncode (js ''%PDF-1.4\<newline>'') @ concat objs @ rest \<and>
        startsWith rest (textEncode (js ''xref\<newline>'')) \<and>
        length objs = 2 * p + 2 \<and>
        objs ! 0 = catalogText \<and>
        objs ! 1 = pageTreeText p \<and>
        (\<forall>i < p. isPageObject (2 * i + 3) (2 * i + 4) (objs ! (2 * i + 2)) \<and>
                 isStreamObject (2 * i + 4) (objs ! (2 * i + 3))) \<and>
        length (filter declaresPage objs) = p)"

text \<open>
  \<open>Number::toString\<close> on the non-negative numbers with at most two decimal places
  (\<open>595.28\<close>, \<open>14\<close>), for the evaluation of examples.
\<close>

definition numStr2 :: "real \<Rightarrow> jsstring" where
  "numStr2 r =
     (let n = nat \<lfloor>r * 100\<rfloor>; f = n mod 100
      in showNat (n div 100) @
         (if f = 0 then []
          else if f mod 10 = 0 then [46] @ showNat (f div 10)
          else if f < 10 then [46, 48] @ showNat f
          else [46] @ showNat f))"

section \<open>Closed forms used in the proofs\<close>

text \<open>
  The texts of the objects in the order \<open>pdfObjects\<close> writes them.
\<close>

definition objectTexts ::
  "jsstring \<Rightarrow> (real \<Rightarrow> jsstring) \<Rightarrow> options \<Rightarrow> (nat \<Rightarrow> jsstring) \<Rightarrow> nat \<Rightarrow> jsstring list" where
  "objectTexts baseFont numStr opts contentStreams count =
     catalogContent # pagesContent count #
     concat (map (\<lambda>i. [pageContent baseFont numStr opts (3 + i * 2) (3 + i * 2 + 1),
                         streamContent (3 + i * 2 + 1) (contentStreams i)]) [0..<count])"

text \<open>
  What the key encoder does to one ASCII character: \<open>keyEscape\<close> inside a path part,
  \<open>keyChar\<close> in a whole key (the slash is kept).  \<open>hexUpper\<close> is an upper-case
  hexadecimal digit, \<open>keySafe\<close> the characters an encoded key consists of.
\<close>

definition keyEscape :: "nat \<Rightarrow> jsstring" where
  "keyEscape c =
     (if uriUnescaped c \<and> \<not> (c = 33 \<or> c = 39 \<or> c = 40 \<or> c = 41 \<or> c = 42) then [c]
      else pctEncode [c])"

definition keyChar :: "nat \<Rightarrow> jsstring" where
  "keyChar c = (if c = 47 then [47] else keyEscape c)"

definition hexUpper :: "nat \<Rightarrow> nat" where
  "hexUpper d = (if d < 10 then 48 + d else 55 + d)"

definition keySafe :: "nat \<Rightarrow> bool" where
  "keySafe x =
     ((65 \<le> x \<and> x \<le> 90) \<or> (97 \<le> x \<and> x \<le> 122) \<or> (48 \<le> x \<and> x \<le> 57) \<or>
      x = 45 \<or> x = 95 \<or> x = 46 \<or> x = 126 \<or> x = 37)"

section \<open>Evaluation rules\<close>

lemma replaceAll_Nil [simp]: "replaceAll pat rep [] = []"
  by (simp add: replaceAll.simps)

lemma replaceAll_match [simp]:
  "pat \<noteq> [] \<Longrightarrow> take (length pat) (c # cs) = pat \<Longrightarrow>
   replaceAll pat rep (c # cs) = rep @ replaceAll pat rep (drop (length pat) (c # cs))"
  by (simp add: replaceAll.simps)

lemma replaceAll_skip [simp]:
  "pat \<noteq> [] \<Longrightarrow> take (length pat) (c # cs) \<noteq> pat \<Longrightarrow>
   replaceAll pat rep (c # cs) = c # replaceAll pat rep cs"
  by (simp add: replaceAll.simps)

lemma showNat_digit [simp]: "n < 10 \<Longrightarrow> showNat n = [48 + n]"
  by (simp add: showNat.simps)

lemma showNat_more [simp]: "\<not> n < 10 \<Longrightarrow> showNat n = showNat (n div 10) @ [48 + n mod 10]"
  by (subst showNat.simps) simp

lemma toString16_digit [simp]: "n < 16 \<Longrightarrow> toString16 n = [hexDigit n]"
  by (simp add: toString16.simps)

lemma toString16_more [simp]:
  "\<not> n < 16 \<Longrightarrow> toString16 n = toString16 (n div 16) @ [hexDigit (n mod 16)]"
  by (subst toString16.simps) simp

lemma replaceAll_same: "replaceAll pat pat s = s"
proof (induction s rule: length_induct)
  case (1 s)
  show ?case
  proof (cases "pat = [] \<or> s = []")
    case True
    then show ?thesis by (subst replaceAll.simps) simp
  next
    case False
    then have ne: "pat \<noteq> []" "s \<noteq> []" by simp_all
    show ?thesis
    proof (cases "take (length pat) s = pat")
      case True
      have "length (drop (length pat) s) < length s" using ne by simp
      then have ih: "replaceAll pat pat (drop (length pat) s) = drop (length pat) s"
        using 1 by blast
      have "replaceAll pat pat s = pat @ replaceAll pat pat (drop (length pat) s)"
        using ne True by (subst replaceAll.simps) simp
      also have "\<dots> = take (length pat) s @ drop (length pat) s"
        using ih True by simp
      finally show ?thesis by simp
    next
      case F2: False
      have "length (tl s) < length s" using ne by simp
      then have ih: "replaceAll pat pat (tl s) = tl s"
        using 1 by blast
      have "replaceAll pat pat s = hd s # replaceAll pat pat (tl s)"
        using ne F2 by (subst replaceAll.simps) simp
      then show ?thesis using ih ne by simp
    qed
  qed
qed

lemma replaceChars_append:
  "replaceChars P f (xs @ ys) = replaceChars P f xs @ replaceChars P f ys"
  by (simp add: replaceChars_def)

lemma replaceChars_concat_map:
  "replaceChars P f (concat (map g s)) = concat (map (\<lambda>c. replaceChars P f (g c)) s)"
proof (induction s)
  case Nil
  show ?case by (simp add: replaceChars_def)
next
  case (Cons c s)
  then show ?case by (simp add: replaceChars_append)
qed

lemma replaceChar_absent: "d \<notin> set s \<Longrightarrow> replaceChar d r s = s"
  by (induction s) (simp_all add: replaceChar_def replaceChars_def)

lemma decode_no_percent: "list_all (\<lambda>c. c \<noteq> 37) s \<Longrightarrow> decodeURIComponent s = Inr s"
  by (induction s) simp_all

lemma pctEncode_byte:
  "c < 256 \<Longrightarrow> pctEncode [c] = [37, hexUpper (c div 16), hexUpper (c mod 16)]"
  by (simp add: pctEncode_def pctByte_def toUpperCase_def hexDigit_def hexUpper_def)

lemma keySafe_hexUpper: "d < 16 \<Longrightarrow> keySafe (hexUpper d)"
  by (simp add: keySafe_def hexUpper_def)

lemma keySafe_pctEncode: "c < 256 \<Longrightarrow> list_all keySafe (pctEncode [c])"
  by (simp add: pctEncode_byte keySafe_hexUpper) (simp add: keySafe_def)

lemma keySafe_not_special:
  "keySafe x \<Longrightarrow> \<not> (x = 33 \<or> x = 39 \<or> x = 40 \<or> x = 41 \<or> x = 42)"
  by (auto simp: keySafe_def)

lemma replaceChars_none: "list_all (\<lambda>x. \<not> P x) s \<Longrightarrow> replaceChars P f s = s"
  by (induction s) (simp_all add: replaceChars_def)

lemma encodeURIComponent_ascii:
  "list_all (\<lambda>c. c < 128) s \<Longrightarrow>
   encodeURIComponent s = Inr (concat (map (\<lambda>c. if uriUnescaped c then [c] else pctEncode [c]) s))"
  by (induction s)
     (simp_all add: isLowSurrogate_def isHighSurrogate_def utf8CodePoint_def)

lemma special_escape:
  "c = 33 \<or> c = 39 \<or> c = 40 \<or> c = 41 \<or> c = 42 \<Longrightarrow>
   37 # toUpperCase (toString16 c) = pctEncode [c]"
  by (elim disjE)
     (simp_all add: pctEncode_def pctByte_def toUpperCase_def hexDigit_def)

lemma first_replace_char:
  assumes "c < 128"
  shows "replaceChars (\<lambda>c. c = 33 \<or> c = 39 \<or> c = 40 \<or> c = 41 \<or> c = 42)
           (\<lambda>c. 37 # toUpperCase (toString16 c))
           (if uriUnescaped c then [c] else pctEncode [c]) = keyEscape c"
proof (cases "uriUnescaped c")
  case True
  show ?thesis
  proof (cases "c = 33 \<or> c = 39 \<or> c = 40 \<or> c = 41 \<or> c = 42")
    case sp: True
    have "replaceChars (\<lambda>c. c = 33 \<or> c = 39 \<or> c = 40 \<or> c = 41 \<or> c = 42)
           (\<lambda>c. 37 # toUpperCase (toString16 c)) [c] = 37 # toUpperCase (toString16 c)"
      using sp by (simp add: replaceChars_def)
    also have "\<dots> = pctEncode [c]" using sp by (rule special_escape)
    also have "\<dots> = keyEscape c" using sp by (simp add: keyEscape_def)
    finally show ?thesis using True by simp
  next
    case False
    with True show ?thesis by (simp add: keyEscape_def replaceChars_def)
  qed
next
  case False
  have "c < 256" using assms by simp
  then have "list_all keySafe (pctEncode [c])" by (rule keySafe_pctEncode)
  then have "list_all (\<lambda>x. \<not> (x = 33 \<or> x = 39 \<or> x = 40 \<or> x = 41 \<or> x = 42)) (pctEncode [c])"
    by (rule list.pred_mono_strong) (rule keySafe_not_special)
  then have "replaceChars (\<lambda>c. c = 33 \<or> c = 39 \<or> c = 40 \<or> c = 41 \<or> c = 42)
           (\<lambda>c. 37 # toUpperCase (toString16 c)) (pctEncode [c]) = pctEncode [c]"
    by (rule replaceChars_none)
  with False show ?thesis by (simp add: keyEscape_def)
qed

lemma keySafe_keyEscape:
  assumes "c < 128"
  shows "list_all keySafe (keyEscape c)"
proof (cases "uriUnescaped c \<and> \<not> (c = 33 \<or> c = 39 \<or> c = 40 \<or> c = 41 \<or> c = 42)")
  case True
  then have "keySafe c" by (auto simp: uriUnescaped_def keySafe_def)
  with True show ?thesis by (simp add: keyEscape_def)
next
  case False
  have "c < 256" using assms by simp
  then have "list_all keySafe (pctEncode [c])" by (rule keySafe_pctEncode)
  with False show ?thesis by (auto simp: keyEscape_def)
qed

lemma keySafe_set: "list_all keySafe s \<Longrightarrow> d \<in> set s \<Longrightarrow> keySafe d"
  by (simp add: list_all_iff)

lemma keySafe_concat:
  "list_all (\<lambda>c. c < 128) part \<Longrightarrow> list_all keySafe (concat (map keyEscape part))"
  by (induction part) (simp_all add: keySafe_keyEscape)

lemma encodePart_ascii:
  assumes "list_all (\<lambda>c. c < 128) part"
  shows "encodePart part = Inr (concat (map keyEscape part))"
proof -
  let ?t = "concat (map keyEscape part)"
  have safe: "list_all keySafe ?t" using assms by (rule keySafe_concat)
  have none: "\<not> keySafe d \<Longrightarrow> replaceChar d r ?t = ?t" for d r
    using keySafe_set [OF safe] by (blast intro: replaceChar_absent)
  have first: "replaceChars (\<lambda>c. c = 33 \<or> c = 39 \<or> c = 40 \<or> c = 41 \<or> c = 42)
                 (\<lambda>c. 37 # toUpperCase (toString16 c))
                 (concat (map (\<lambda>c. if uriUnescaped c then [c] else pctEncode [c]) part)) = ?t"
    using assms
    by (simp add: replaceChars_concat_map first_replace_char list_all_iff cong: map_cong)
  show ?thesis
    by (simp add: encodePart_def encodeURIComponent_ascii [OF assms] first none keySafe_def
        replaceAll_same)
qed

lemma mapE_encodePart:
  "list_all (list_all (\<lambda>c. c < 128)) parts \<Longrightarrow>
   mapE encodePart parts = Inr (map (\<lambda>p. concat (map keyEscape p)) parts)"
  by (induction parts) (simp_all add: encodePart_ascii)

lemma split_on_not_Nil [simp]: "split_on d s \<noteq> []"
  by (induction s) (simp_all split: list.splits)

lemma split_on_all: "list_all P s \<Longrightarrow> list_all (list_all P) (split_on d s)"
  by (induction s) (auto split: list.splits)

lemma join_Cons_append: "join sep ((a @ x) # xs) = a @ join sep (x # xs)"
  by (cases xs) simp_all

lemma join_split_on:
  "join [d] (map (\<lambda>p. concat (map g p)) (split_on d s)) =
   concat (map (\<lambda>c. if c = d then [d] else g c) s)"
proof (induction s)
  case Nil
  show ?case by simp
next
  case (Cons c s)
  obtain p ps where sp: "split_on d s = p # ps"
    by (cases "split_on d s") simp_all
  show ?case
  proof (cases "c = d")
    case True
    with Cons sp show ?thesis by simp
  next
    case False
    with Cons sp show ?thesis by (simp add: join_Cons_append)
  qed
qed

lemma encodeS3Key_ascii:
  assumes "list_all (\<lambda>c. c < 128 \<and> c \<noteq> 37) key"
  shows "encodeS3Key key = Inr (concat (map keyChar key))"
proof -
  have np: "list_all (\<lambda>c. c \<noteq> 37) key" and asc: "list_all (\<lambda>c. c < 128) key"
    using assms by (simp_all add: list_all_iff)
  have parts: "list_all (list_all (\<lambda>c. c < 128)) (split_on 47 key)"
    using asc by (rule split_on_all)
  have "join [47] (map (\<lambda>p. concat (map keyEscape p)) (split_on 47 key)) =
        concat (map keyChar key)"
    by (simp add: join_split_on keyChar_def [abs_def])
  then show ?thesis
    by (simp add: encodeS3Key_def decode_no_percent [OF np] mapE_encodePart [OF parts])
qed

lemma hexValue_hexUpper: "d < 16 \<Longrightarrow> hexValue (hexUpper d) = Some d"
  by (simp add: hexValue_def hexUpper_def)

lemma decode_keyChar:
  assumes "c < 128" and "c \<noteq> 37" and "decodeURIComponent rest = Inr r"
  shows "decodeURIComponent (keyChar c @ rest) = Inr (c # r)"
proof (cases "keyChar c = [c]")
  case True
  with assms show ?thesis by simp
next
  case False
  then have "keyChar c = pctEncode [c]"
    by (simp add: keyChar_def keyEscape_def split: if_splits)
  moreover have "c < 256" using assms(1) by simp
  ultimately have kc: "keyChar c = [37, hexUpper (c div 16), hexUpper (c mod 16)]"
    by (simp add: pctEncode_byte)
  have "c div 16 < 16" using assms(1) by simp
  then have "readEscape (37 # hexUpper (c div 16) # hexUpper (c mod 16) # rest) = Some (c, rest)"
    by (simp add: hexValue_hexUpper)
  moreover have "leadingOnes c = 0" using assms(1) by (simp add: leadingOnes_def)
  ultimately show ?thesis using assms(3) by (simp add: kc)
qed

lemma decode_encoded_key:
  "list_all (\<lambda>c. c < 128 \<and> c \<noteq> 37) key \<Longrightarrow>
   decodeURIComponent (concat (map keyChar key)) = Inr key"
  by (induction key) (simp_all add: decode_keyChar)

lemma keyChar_no_plus:
  "list_all (\<lambda>c. c < 128) key \<Longrightarrow> 43 \<notin> set (concat (map keyChar key))"
proof (induction key)
  case Nil
  show ?case by simp
next
  case (Cons c key)
  have "list_all keySafe (keyEscape c)" using Cons.prems by (simp add: keySafe_keyEscape)
  then have "43 \<notin> set (keyEscape c)" 
    using keySafe_set [of "keyEscape c" 43] by (auto simp: keySafe_def)
  then have "43 \<notin> set (keyChar c)" by (simp add: keyChar_def)
  with Cons show ?case by simp
qed

lemma keyChar_space: "keyChar 32 = js ''%20''"
  by (simp add: keyChar_def keyEscape_def uriUnescaped_def pctEncode_def pctByte_def
      toUpperCase_def hexDigit_def js_def)

section \<open>The key encoder: round trip and the scenario of the specification\<close>

text \<open>
  Claim C5.  For every key made of ASCII characters other than the percent sign (letters,
  digits, punctuation, the slash, and the reserved characters space \<open>( ) [ ] { } # ? & = +\<close>),
  \<open>encodeS3Key\<close> returns an encoded key whose percent-decoding (\<open>decodeURIComponent\<close>)
  is the original key; the encoded key contains no \<open>+\<close>, and wherever the key has a
  space, the encoded key has \<open>%20\<close> between the encodings of what stands before and
  after it.
\<close>

theorem encodeS3Key_roundtrip:
  assumes "list_all (\<lambda>c. c < 128 \<and> c \<noteq> 37) key"
  shows "\<exists>enc. encodeS3Key key = Inr enc \<and> decodeURIComponent enc = Inr key \<and> 43 \<notin> set enc \<and>
           (\<forall>a b. key = a @ [32] @ b \<longrightarrow>
              (\<exists>ea eb. encodeS3Key a = Inr ea \<and> encodeS3Key b = Inr eb \<and>
                 enc = ea @ js ''%20'' @ eb))"
proof -
  let ?enc = "concat (map keyChar key)"
  have asc: "list_all (\<lambda>c. c < 128) key" using assms by (simp add: list_all_iff)
  have "encodeS3Key key = Inr ?enc" using assms by (rule encodeS3Key_ascii)
  moreover have "decodeURIComponent ?enc = Inr key" using assms by (rule decode_encoded_key)
  moreover have "43 \<notin> set ?enc" using asc by (rule keyChar_no_plus)
  moreover have "\<exists>ea eb. encodeS3Key a = Inr ea \<and> encodeS3Key b = Inr eb \<and>
                 ?enc = ea @ js ''%20'' @ eb" if "key = a @ [32] @ b" for a b
  proof -
    have "list_all (\<lambda>c. c < 128 \<and> c \<noteq> 37) a" "list_all (\<lambda>c. c < 128 \<and> c \<noteq> 37) b"
      using assms that by simp_all
    then have "encodeS3Key a = Inr (concat (map keyChar a))"
      "encodeS3Key b = Inr (concat (map keyChar b))"
      by (simp_all add: encodeS3Key_ascii)
    moreover have "?enc = concat (map keyChar a) @ js ''%20'' @ concat (map keyChar b)"
      using that by (simp add: keyChar_space)
    ultimately show ?thesis by blast
  qed
  ultimately show ?thesis by blast
qed

lemmas key_eval =
  js_def encodeS3Key_def encodePart_def replaceChar_def replaceChars_def uriUnescaped_def
  isLowSurrogate_def isHighSurrogate_def pctEncode_def pctByte_def hexDigit_def
  toUpperCase_def utf8CodePoint_def uriError_def leadingOnes_def hexValue_def

theorem encodeS3Key_roundtrip_witness:
  "list_all (\<lambda>c. c < 128 \<and> c \<noteq> 37) (js ''a b+[c]/d&e'') \<and>
   encodeS3Key (js ''a b+[c]/d&e'') = Inr (js ''a%20b%2B%5Bc%5D/d%26e'') \<and>
   decodeURIComponent (js ''a%20b%2B%5Bc%5D/d%26e'') = Inr (js ''a b+[c]/d&e'')"
proof -
  have h: "list_all (\<lambda>c. c < 128 \<and> c \<noteq> 37) (js ''a b+[c]/d&e'')"
    by (simp add: js_def)
  have e: "encodeS3Key (js ''a b+[c]/d&e'') = Inr (js ''a%20b%2B%5Bc%5D/d%26e'')"
    by (simp add: key_eval)
  from encodeS3Key_roundtrip [OF h] e h show ?thesis by auto
qed

text \<open>
  Claim C9.  \<open>encodeS3Key\<close> applied to the key \<open>My File (v2).docx\<close> returns exactly
  \<open>My%20File%20%28v2%29.docx\<close>.
\<close>

theorem encodeS3Key_scenario_A:
  "encodeS3Key (js ''My File (v2).docx'') = Inr (js ''My%20File%20%28v2%29.docx'')"
  by (simp add: key_eval)

section \<open>The paginator: long words\<close>

lemma wrapWords_mono:
  "x \<in> set lines \<Longrightarrow> x \<in> set (fst (wrapWords m ws lines cur))"
  by (induction ws arbitrary: lines cur) (simp_all add: Let_def)

lemma wrapWords_full:
  "length cur = m \<Longrightarrow> cur \<noteq> [] \<Longrightarrow>
   cur \<in> set (fst (wrapWords m ws lines cur)) \<or> snd (wrapWords m ws lines cur) = cur"
proof (cases ws)
  case Nil
  then show ?thesis by simp
next
  case (Cons w ws')
  assume "length cur = m" "cur \<noteq> []"
  then have "wrapWords m ws lines cur =
      wrapWords m ws' (lines @ [cur]) (if length w \<le> m then w else take m w)"
    using Cons by (simp add: Let_def)
  then show ?thesis using wrapWords_mono [of cur "lines @ [cur]"] by simp
qed

lemma wrapWords_long:
  "length cur \<le> m \<Longrightarrow> w \<in> set ws \<Longrightarrow> m < length w \<Longrightarrow>
   take m w \<in> set (fst (wrapWords m ws lines cur)) \<or>
   (snd (wrapWords m ws lines cur) = take m w \<and> take m w \<noteq> [])"
proof (induction ws arbitrary: lines cur)
  case Nil
  then show ?case by simp
next
  case (Cons x xs)
  let ?test = "if cur \<noteq> [] then cur @ [32] @ x else x"
  show ?case
  proof (cases "w = x")
    case True
    have long: "\<not> length ?test \<le> m" using Cons.prems(3) True by simp
    show ?thesis
    proof (cases "cur = []")
      case e: True
      then have "wrapWords m (x # xs) lines cur = wrapWords m xs (lines @ [take m x]) []"
        using long by (simp add: Let_def)
      then show ?thesis using wrapWords_mono [of "take m x" "lines @ [take m x]"] True by simp
    next
      case ne: False
      then have step: "wrapWords m (x # xs) lines cur = wrapWords m xs (lines @ [cur]) (take m x)"
        using long Cons.prems(3) True by (simp add: Let_def)
      have "0 < m" using ne Cons.prems(1) by (cases cur) simp_all
      then have "take m x \<noteq> []" and "length (take m x) = m"
        using Cons.prems(3) True by auto
      then show ?thesis
        using wrapWords_full [of "take m x" m xs "lines @ [cur]"] step True by auto
    qed
  next
    case False
    then have mem: "w \<in> set xs" using Cons.prems(2) by simp
    show ?thesis
    proof (cases "length ?test \<le> m")
      case True
      then have "wrapWords m (x # xs) lines cur = wrapWords m xs lines ?test"
        by (simp add: Let_def)
      then show ?thesis using Cons.IH [OF True mem Cons.prems(3)] by simp
    next
      case long: False
      show ?thesis
      proof (cases "cur = []")
        case True
        then have "wrapWords m (x # xs) lines cur = wrapWords m xs (lines @ [take m x]) []"
          using long by (simp add: Let_def)
        then show ?thesis using Cons.IH [OF _ mem Cons.prems(3), of "[]"] by simp
      next
        case ne: False
        let ?next = "if length x \<le> m then x else take m x"
        have "wrapWords m (x # xs) lines cur = wrapWords m xs (lines @ [cur]) ?next"
          using long ne by (simp add: Let_def)
        moreover have "length ?next \<le> m" by simp
        ultimately show ?thesis using Cons.IH [OF _ mem Cons.prems(3), of ?next] by simp
      qed
    qed
  qed
qed

lemma wrapParagraph_mono: "x \<in> set lines \<Longrightarrow> x \<in> set (wrapParagraph m lines p)"
proof -
  assume x: "x \<in> set lines"
  obtain ls c where r: "wrapWords m (splitWs (trim p)) lines [] = (ls, c)"
    by (cases "wrapWords m (splitWs (trim p)) lines []")
  have "x \<in> set ls" using wrapWords_mono [OF x, of m "splitWs (trim p)" "[]"] r by simp
  then show ?thesis by (simp add: wrapParagraph_def r)
qed

lemma wrapParagraph_long:
  assumes "w \<in> set (splitWs (trim p))" and "m < length w"
  shows "take m w \<in> set (wrapParagraph m lines p)"
proof -
  obtain ls c where r: "wrapWords m (splitWs (trim p)) lines [] = (ls, c)"
    by (cases "wrapWords m (splitWs (trim p)) lines []")
  have "take m w \<in> set ls \<or> (c = take m w \<and> take m w \<noteq> [])"
    using wrapWords_long [of "[]" m w "splitWs (trim p)" lines] assms r by simp
  then show ?thesis by (auto simp: wrapParagraph_def r)
qed

lemma splitWs_blank: "splitWs [] = [[]]"
  by (simp add: splitWs_def)

lemma docxParagraph_mono: "x \<in> set lines \<Longrightarrow> x \<in> set (docxParagraph m lines p)"
  by (simp add: docxParagraph_def wrapParagraph_mono)

lemma docxParagraph_long:
  assumes "w \<in> set (splitWs (trim p))" and "m < length w"
  shows "take m w \<in> set (docxParagraph m lines p)"
proof (cases "trim p = []")
  case True
  with assms show ?thesis by (simp add: splitWs_blank)
next
  case False
  with assms show ?thesis by (simp add: docxParagraph_def wrapParagraph_long)
qed

lemma foldl_mono:
  assumes "\<And>x lines p. x \<in> set lines \<Longrightarrow> x \<in> set (f lines p)"
  shows "x \<in> set lines \<Longrightarrow> x \<in> set (foldl f lines ps)"
  by (induction ps arbitrary: lines) (simp_all add: assms)

lemma foldl_emits:
  assumes mono: "\<And>x lines p. x \<in> set lines \<Longrightarrow> x \<in> set (f lines p)"
    and "p \<in> set ps" and "\<And>lines. y \<in> set (f lines p)"
  shows "y \<in> set (foldl f lines ps)"
  using assms(2)
proof (induction ps arbitrary: lines)
  case Nil
  then show ?case by simp
next
  case (Cons q qs)
  show ?case
  proof (cases "p = q")
    case True
    have "y \<in> set (f lines q)" using assms(3) True by simp
    then show ?thesis using foldl_mono [of f y "f lines q" qs] mono by simp
  next
    case False
    then show ?thesis using Cons by simp
  qed
qed

lemma str_includes_char: "str_includes s [c] = (c \<in> set s)"
  by (induction s) auto

lemma xlsxParagraph_mono: "x \<in> set lines \<Longrightarrow> x \<in> set (xlsxParagraph lines p)"
  by (simp add: xlsxParagraph_def wrapParagraph_mono)

lemma xlsxParagraph_long:
  assumes "w \<in> set (splitWs (trim p))" and "90 < length w"
    and "\<not> str_includes p [124]" and "\<not> str_includes p [43]"
  shows "take 90 w \<in> set (xlsxParagraph lines p)"
proof (cases "trim p = []")
  case True
  with assms show ?thesis by (simp add: splitWs_blank)
next
  case False
  with assms show ?thesis by (simp add: xlsxParagraph_def wrapParagraph_long)
qed

lemma xlsxParagraph_table:
  assumes "str_includes p [124] \<or> str_includes p [43]"
  shows "trim p \<in> set (xlsxParagraph lines p)"
  using assms by (simp add: xlsxParagraph_def)

text \<open>
  Claim C7, as amended.  Let \<open>w\<close> be a white-space-delimited word of a paragraph \<open>p\<close> of
  the text.  In the DOCX converter, for every limit \<open>maxLength\<close>: if \<open>w\<close> is longer than
  the limit, its first \<open>maxLength\<close> characters are one of the lines \<open>splitIntoLines\<close>
  returns.  In the spreadsheet converter the limit is 90 and the same holds when \<open>p\<close>
  contains neither \<open>|\<close> nor \<open>+\<close>; a paragraph that contains one of them is a table line
  and is emitted whole (trimmed), not truncated.
\<close>

theorem long_word_truncated:
  assumes "p \<in> set (split_on 10 text)" and "w \<in> set (splitWs (trim p))"
  shows "(maxLength < length w \<longrightarrow> take maxLength w \<in> set (splitIntoLines maxLength text)) \<and>
         (90 < length w \<and> \<not> str_includes p [124] \<and> \<not> str_includes p [43] \<longrightarrow>
            take 90 w \<in> set (xlsxSplitIntoLines text)) \<and>
         (str_includes p [124] \<or> str_includes p [43] \<longrightarrow> trim p \<in> set (xlsxSplitIntoLines text))"
proof (intro conjI impI)
  assume "maxLength < length w"
  then show "take maxLength w \<in> set (splitIntoLines maxLength text)"
    unfolding splitIntoLines_def
    by (intro foldl_emits [OF _ assms(1)] docxParagraph_mono docxParagraph_long assms(2))
next
  assume "90 < length w \<and> \<not> str_includes p [124] \<and> \<not> str_includes p [43]"
  then show "take 90 w \<in> set (xlsxSplitIntoLines text)"
    unfolding xlsxSplitIntoLines_def
    by (intro foldl_emits [OF _ assms(1)] xlsxParagraph_mono xlsxParagraph_long assms(2)) simp_all
next
  assume "str_includes p [124] \<or> str_includes p [43]"
  then show "trim p \<in> set (xlsxSplitIntoLines text)"
    unfolding xlsxSplitIntoLines_def
    by (intro foldl_emits [OF _ assms(1)] xlsxParagraph_mono xlsxParagraph_table)
qed


text \<open>Evaluation of the paginator on concrete texts.\<close>

lemmas split_eval =
  js_def splitIntoLines_def xlsxSplitIntoLines_def docxParagraph_def xlsxParagraph_def
  wrapParagraph_def trim_def splitWs_def isWhiteSpace_def Let_def

theorem long_word_truncated_witness:
  "js ''abcdefgh'' \<in> set (split_on 10 (js ''abcdefgh'')) \<and>
   js ''abcdefgh'' \<in> set (splitWs (trim (js ''abcdefgh''))) \<and>
   5 < length (js ''abcdefgh'') \<and>
   take 5 (js ''abcdefgh'') \<in> set (splitIntoLines 5 (js ''abcdefgh'')) \<and>
   str_includes (js ''a|b'') [124] \<and>
   trim (js ''a|b'') \<in> set (xlsxSplitIntoLines (js ''a|b''))"
proof -
  have a: "js ''abcdefgh'' \<in> set (split_on 10 (js ''abcdefgh''))"
    and b: "js ''abcdefgh'' \<in> set (splitWs (trim (js ''abcdefgh'')))"
    and c: "5 < length (js ''abcdefgh'')"
    by (simp_all add: split_eval)
  have d: "js ''a|b'' \<in> set (split_on 10 (js ''a|b''))"
    and e: "js ''a|b'' \<in> set (splitWs (trim (js ''a|b'')))"
    and f: "str_includes (js ''a|b'') [124]"
    by (simp_all add: split_eval)
  from long_word_truncated [OF a b, of 5] long_word_truncated [OF d e, of 5] a b c f
  show ?thesis by blast
qed

text \<open>
  The claim as stated fails in the spreadsheet converter: a word of 95 characters that
  contains \<open>|\<close> is longer than the limit of 90, and the only line returned is the whole
  word; its first 90 characters are not a line of the output.
\<close>

theorem table_word_not_truncated:
  "js ''aaaaaaaaaaaaaaaaaaaaaaaaaaaaaaaaaaaaaaaaaaaaaaaaaaaaaaaaaaaaaaaaaaaaaaaaaaaaaaaaaaaaaaaaaaaaaa|''
     \<in> set (split_on 10
        (js ''aaaaaaaaaaaaaaaaaaaaaaaaaaaaaaaaaaaaaaaaaaaaaaaaaaaaaaaaaaaaaaaaaaaaaaaaaaaaaaaaaaaaaaaaaaaaaa|'')) \<and>
   js ''aaaaaaaaaaaaaaaaaaaaaaaaaaaaaaaaaaaaaaaaaaaaaaaaaaaaaaaaaaaaaaaaaaaaaaaaaaaaaaaaaaaaaaaaaaaaaa|''
     \<in> set (splitWs (trim
        (js ''aaaaaaaaaaaaaaaaaaaaaaaaaaaaaaaaaaaaaaaaaaaaaaaaaaaaaaaaaaaaaaaaaaaaaaaaaaaaaaaaaaaaaaaaaaaaaa|''))) \<and>
   90 < length
     (js ''aaaaaaaaaaaaaaaaaaaaaaaaaaaaaaaaaaaaaaaaaaaaaaaaaaaaaaaaaaaaaaaaaaaaaaaaaaaaaaaaaaaaaaaaaaaaaa|'') \<and>
   xlsxSplitIntoLines
     (js ''aaaaaaaaaaaaaaaaaaaaaaaaaaaaaaaaaaaaaaaaaaaaaaaaaaaaaaaaaaaaaaaaaaaaaaaaaaaaaaaaaaaaaaaaaaaaaa|'') =
     [js ''aaaaaaaaaaaaaaaaaaaaaaaaaaaaaaaaaaaaaaaaaaaaaaaaaaaaaaaaaaaaaaaaaaaaaaaaaaaaaaaaaaaaaaaaaaaaaa|''] \<and>
   take 90
     (js ''aaaaaaaaaaaaaaaaaaaaaaaaaaaaaaaaaaaaaaaaaaaaaaaaaaaaaaaaaaaaaaaaaaaaaaaaaaaaaaaaaaaaaaaaaaaaaa|'')
     \<notin> set (xlsxSplitIntoLines
        (js ''aaaaaaaaaaaaaaaaaaaaaaaaaaaaaaaaaaaaaaaaaaaaaaaaaaaaaaaaaaaaaaaaaaaaaaaaaaaaaaaaaaaaaaaaaaaaaa|''))"
  by (simp add: split_eval)

section \<open>The PDF assembler: offsets, lengths and the page tree\<close>

subsection \<open>ASCII strings are their own UTF-8\<close>

lemma isAscii_Nil [simp]: "isAscii []"
  by (simp add: isAscii_def)

lemma isAscii_Cons [simp]: "isAscii (c # s) = (c < 128 \<and> isAscii s)"
  by (simp add: isAscii_def)

lemma isAscii_append [simp]: "isAscii (a @ b) = (isAscii a \<and> isAscii b)"
  by (simp add: isAscii_def)

lemma isAscii_take: "isAscii s \<Longrightarrow> isAscii (take n s)"
  unfolding isAscii_def list_all_iff by (auto dest: in_set_takeD)

lemma isAscii_concat: "list_all isAscii xs \<Longrightarrow> isAscii (concat xs)"
  by (induction xs) simp_all

lemma textEncode_ascii: "isAscii s \<Longrightarrow> textEncode s = s"
  by (induction s) (simp_all add: isHighSurrogate_def isLowSurrogate_def utf8CodePoint_def)

lemma isAscii_showNat [simp]: "isAscii (showNat n)"
proof (induction n rule: showNat.induct)
  case (1 n)
  show ?case
  proof (cases "n < 10")
    case True
    then show ?thesis by simp
  next
    case False
    moreover have "n mod 10 < 10" by simp
    ultimately show ?thesis using 1 by simp
  qed
qed

lemma isAscii_replaceChar: "isAscii r \<Longrightarrow> isAscii s \<Longrightarrow> isAscii (replaceChar d r s)"
  by (induction s) (simp_all add: replaceChar_def replaceChars_def)

lemma isAscii_escapeChain: "isAscii s \<Longrightarrow> isAscii (escapeChain s)"
  by (simp add: escapeChain_def isAscii_replaceChar)

lemma isAscii_docxEscape: "isAscii s \<Longrightarrow> isAscii (docxEscape s)"
  by (simp add: docxEscape_def isAscii_take isAscii_escapeChain)

lemma isAscii_escapePdfString: "isAscii s \<Longrightarrow> isAscii (escapePdfString s)"
  by (simp add: escapePdfString_def isAscii_take isAscii_escapeChain)

lemma isAscii_join: "isAscii sep \<Longrightarrow> list_all isAscii xs \<Longrightarrow> isAscii (join sep xs)"
  by (induction sep xs rule: join.induct) simp_all

lemma isAscii_padStart: "c < 128 \<Longrightarrow> isAscii s \<Longrightarrow> isAscii (padStart n c s)"
  by (auto simp: padStart_def isAscii_def list_all_iff)

subsection \<open>The state of the assembler\<close>

lemma emit_all:
  "pdf (foldl (\<lambda>st c. emitObject c st) st cs) = pdf st @ concat cs \<and>
   currentPos (foldl (\<lambda>st c. emitObject c st) st cs) = currentPos st + length (concat cs) \<and>
   xrefTable (foldl (\<lambda>st c. emitObject c st) st cs) =
     xrefTable st @ map (\<lambda>j. currentPos st + length (concat (take j cs))) [0..<length cs]"
proof (induction cs arbitrary: st)
  case Nil
  show ?case by simp
next
  case (Cons c cs)
  have "map (\<lambda>j. currentPos st + length (concat (take j (c # cs)))) [0..<length (c # cs)] =
        currentPos st #
        map (\<lambda>j. currentPos st + length c + length (concat (take j cs))) [0..<length cs]"
    by (simp add: upt_conv_Cons map_Suc_upt [symmetric] del: upt_Suc)
  then show ?case using Cons [of "emitObject c st"] by (simp add: emitObject_def)
qed

lemma fold_emitPage:
  "fold (emitPage baseFont numStr opts contentStreams) is st =
   foldl (\<lambda>st c. emitObject c st) st
     (concat (map (\<lambda>i. [pageContent baseFont numStr opts (3 + i * 2) (3 + i * 2 + 1),
                         streamContent (3 + i * 2 + 1) (contentStreams i)]) is))"
  by (induction "is" arbitrary: st) (simp_all add: emitPage_def Let_def)

lemma pdfObjects_objectTexts:
  "pdfObjects baseFont numStr opts contentStreams count =
   foldl (\<lambda>st c. emitObject c st)
     \<lparr>pdf = js ''%PDF-1.4\<newline>'', currentPos = length (js ''%PDF-1.4\<newline>''), xrefTable = []\<rparr>
     (objectTexts baseFont numStr opts contentStreams count)"
  by (simp add: pdfObjects_def objectTexts_def fold_emitPage)

lemma length_objectTexts [simp]:
  "length (objectTexts baseFont numStr opts contentStreams count) = 2 + 2 * count"
  by (simp add: objectTexts_def length_concat comp_def sum_list_triv)

lemma pdfObjects_pdf:
  "pdf (pdfObjects baseFont numStr opts contentStreams count) =
   js ''%PDF-1.4\<newline>'' @ concat (objectTexts baseFont numStr opts contentStreams count)"
  by (simp add: pdfObjects_objectTexts emit_all)

lemma pdfObjects_currentPos:
  "currentPos (pdfObjects baseFont numStr opts contentStreams count) =
   length (pdf (pdfObjects baseFont numStr opts contentStreams count))"
  by (simp add: pdfObjects_objectTexts emit_all)

lemma pdfObjects_xrefTable:
  "xrefTable (pdfObjects baseFont numStr opts contentStreams count) =
   map (\<lambda>j. length (js ''%PDF-1.4\<newline>'') +
            length (concat (take j (objectTexts baseFont numStr opts contentStreams count))))
     [0..<2 + 2 * count]"
  by (simp add: pdfObjects_objectTexts emit_all del: upt_Suc)


lemma pairs_nth:
  "i < n \<Longrightarrow>
   concat (map (\<lambda>i. [A i, B i]) [0..<n]) ! (2 * i) = A i \<and>
   concat (map (\<lambda>i. [A i, B i]) [0..<n]) ! Suc (2 * i) = B i"
proof (induction n)
  case 0
  then show ?case by simp
next
  case (Suc n)
  have len: "length (concat (map (\<lambda>i. [A i, B i]) [0..<n])) = 2 * n"
    by (simp add: length_concat comp_def sum_list_triv)
  show ?case
  proof (cases "i < n")
    case True
    then show ?thesis using Suc.IH len by (simp add: nth_append)
  next
    case False
    then have "i = n" using Suc.prems by simp
    then show ?thesis using len by (simp add: nth_append)
  qed
qed

lemma objectTexts_nth:
  "objectTexts baseFont numStr opts contentStreams count ! 0 = catalogContent"
  "objectTexts baseFont numStr opts contentStreams count ! Suc 0 = pagesContent count"
  "i < count \<Longrightarrow>
   objectTexts baseFont numStr opts contentStreams count ! (2 * i + 2) =
     pageContent baseFont numStr opts (2 * i + 3) (2 * i + 4)"
  "i < count \<Longrightarrow>
   objectTexts baseFont numStr opts contentStreams count ! (2 * i + 3) =
     streamContent (2 * i + 4) (contentStreams i)"
proof -
  let ?A = "\<lambda>i. pageContent baseFont numStr opts (3 + i * 2) (3 + i * 2 + 1)"
  let ?B = "\<lambda>i. streamContent (3 + i * 2 + 1) (contentStreams i)"
  let ?ps = "concat (map (\<lambda>i. [?A i, ?B i]) [0..<count])"
  have ot: "objectTexts baseFont numStr opts contentStreams count =
            catalogContent # pagesContent count # ?ps"
    by (simp add: objectTexts_def)
  show "objectTexts baseFont numStr opts contentStreams count ! 0 = catalogContent"
    by (simp add: ot)
  show "objectTexts baseFont numStr opts contentStreams count ! Suc 0 = pagesContent count"
    by (simp add: ot)
  show "objectTexts baseFont numStr opts contentStreams count ! (2 * i + 2) =
     pageContent baseFont numStr opts (2 * i + 3) (2 * i + 4)" if "i < count"
  proof -
    have "2 * i + 2 = Suc (Suc (2 * i))" by simp
    then have "objectTexts baseFont numStr opts contentStreams count ! (2 * i + 2) = ?ps ! (2 * i)"
      by (simp only: ot nth_Cons_Suc)
    also have "\<dots> = ?A i" using pairs_nth [OF that, of ?A ?B] by blast
    finally show ?thesis by (simp add: add.commute mult.commute)
  qed
  show "objectTexts baseFont numStr opts contentStreams count ! (2 * i + 3) =
     streamContent (2 * i + 4) (contentStreams i)" if "i < count"
  proof -
    have "2 * i + 3 = Suc (Suc (Suc (2 * i)))" by simp
    then have "objectTexts baseFont numStr opts contentStreams count ! (2 * i + 3) =
               ?ps ! Suc (2 * i)"
      by (simp only: ot nth_Cons_Suc)
    also have "\<dots> = ?B i" using pairs_nth [OF that, of ?A ?B] by blast
    finally show ?thesis by (simp add: add.commute mult.commute)
  qed
qed

lemma objectTexts_page:
  assumes "i < count" and "k = 2 * i + 2"
  shows "objectTexts baseFont numStr opts contentStreams count ! k =
     pageContent baseFont numStr opts (k + 1) (k + 2)"
proof -
  have a: "k + 1 = 2 * i + 3" and b: "k + 2 = 2 * i + 4" using assms(2) by arith+
  show ?thesis unfolding a b unfolding assms(2) by (rule objectTexts_nth(3) [OF assms(1)])
qed

lemma objectTexts_stream:
  assumes "i < count" and "k = 2 * i + 3"
  shows "objectTexts baseFont numStr opts contentStreams count ! k =
     streamContent (k + 1) (contentStreams i)"
proof -
  have a: "k + 1 = 2 * i + 4" using assms(2) by arith
  show ?thesis unfolding a unfolding assms(2) by (rule objectTexts_nth(4) [OF assms(1)])
qed

lemma index_cases:
  fixes k :: nat
  assumes "k < 2 + 2 * count"
  obtains "k = 0" | "k = Suc 0" | i where "i < count" "k = 2 * i + 2"
  | i where "i < count" "k = 2 * i + 3"
proof (cases "k < 2")
  case True
  then have "k = 0 \<or> k = Suc 0" by arith
  then show ?thesis using that(1,2) by blast
next
  case False
  show ?thesis
  proof (cases "even k")
    case True
    then obtain j where "k = 2 * j" by (auto elim: evenE)
    with False assms have "j - 1 < count" "k = 2 * (j - 1) + 2" by auto
    then show ?thesis using that(3) by blast
  next
    case odd: False
    then obtain j where "k = 2 * j + 1" by (auto elim: oddE)
    with False assms have "j - 1 < count" "k = 2 * (j - 1) + 3" by auto
    then show ?thesis using that(4) by blast
  qed
qed

lemma objectTexts_header:
  assumes "k < 2 + 2 * count"
  shows "\<exists>rest. objectTexts baseFont numStr opts contentStreams count ! k =
           showNat (k + 1) @ js '' 0 obj\<newline>'' @ rest"
  using assms
proof (cases k count rule: index_cases)
  case 1
  then show ?thesis by (simp add: objectTexts_nth catalogContent_def js_def)
next
  case 2
  then show ?thesis by (simp add: objectTexts_nth pagesContent_def js_def)
next
  case (3 i)
  then have "objectTexts baseFont numStr opts contentStreams count ! k =
     pageContent baseFont numStr opts (k + 1) (k + 2)" by (rule objectTexts_page)
  then show ?thesis by (simp add: pageContent_def js_def)
next
  case (4 i)
  then have "objectTexts baseFont numStr opts contentStreams count ! k =
     streamContent (k + 1) (contentStreams i)" by (rule objectTexts_stream)
  then show ?thesis by (simp add: streamContent_def js_def)
qed

lemma drop_to_object:
  assumes "k < length objs"
  shows "drop (length hdr + length (concat (take k objs))) (hdr @ concat objs @ rest) =
         objs ! k @ concat (drop (Suc k) objs) @ rest"
proof -
  have "concat objs = concat (take k objs) @ concat (drop k objs)"
    by (metis append_take_drop_id concat_append)
  moreover have "drop k objs = objs ! k # drop (Suc k) objs"
    using assms by (simp add: Cons_nth_drop_Suc)
  ultimately show ?thesis by simp
qed

lemma startsWith_append [simp]: "startsWith (p @ rest) p"
  by (simp add: startsWith_def)

lemma endsWith_append [simp]: "endsWith (rest @ p) p"
  by (simp add: endsWith_def)


subsection \<open>Offsets and lengths\<close>

lemma pdfString_eq:
  "pdfString baseFont numStr opts contentStreams count =
   js ''%PDF-1.4\<newline>'' @ concat (objectTexts baseFont numStr opts contentStreams count) @
   xrefSection (xrefTable (pdfObjects baseFont numStr opts contentStreams count))
     (length (js ''%PDF-1.4\<newline>'' @
        concat (objectTexts baseFont numStr opts contentStreams count)))"
  by (simp add: pdfString_def Let_def pdfObjects_currentPos pdfObjects_pdf)

lemma pdfString_at_offset:
  assumes "k < 2 + 2 * count"
  shows "drop (xrefTable (pdfObjects baseFont numStr opts contentStreams count) ! k)
           (pdfString baseFont numStr opts contentStreams count) =
         objectTexts baseFont numStr opts contentStreams count ! k @
         concat (drop (Suc k) (objectTexts baseFont numStr opts contentStreams count)) @
         xrefSection (xrefTable (pdfObjects baseFont numStr opts contentStreams count))
           (length (js ''%PDF-1.4\<newline>'' @
              concat (objectTexts baseFont numStr opts contentStreams count)))"
proof -
  have "xrefTable (pdfObjects baseFont numStr opts contentStreams count) ! k =
        length (js ''%PDF-1.4\<newline>'') +
        length (concat (take k (objectTexts baseFont numStr opts contentStreams count)))"
    using assms by (simp add: pdfObjects_xrefTable del: upt_Suc)
  moreover have "k < length (objectTexts baseFont numStr opts contentStreams count)"
    using assms by simp
  ultimately show ?thesis
    by (simp only: pdfString_eq drop_to_object)
qed

lemma isAscii_foldl:
  assumes "\<And>acc x. isAscii acc \<Longrightarrow> isAscii x \<Longrightarrow> isAscii (f acc x)"
  shows "isAscii acc \<Longrightarrow> list_all isAscii xs \<Longrightarrow> isAscii (foldl f acc xs)"
  by (induction xs arbitrary: acc) (simp_all add: assms)

lemma pageLines_all: "list_all P lines \<Longrightarrow> list_all P (pageLines opts lines pageNum)"
  unfolding pageLines_def Let_def list_all_iff
  by (auto dest!: in_set_takeD in_set_dropD)

lemma isAscii_docxContentStream:
  assumes "list_all isAscii lines" and "\<And>r. isAscii (numStr r)"
  shows "isAscii (docxContentStream numStr opts lines pageNum)"
proof -
  have "isAscii (foldl (\<lambda>contentStream line.
              contentStream @ [40] @ docxEscape line @ js '') Tj\<newline>0 -'' @
                numStr (lineHeight opts) @ js '' Td\<newline>'')
       (js ''BT\<newline>/F1 12 Tf\<newline>50 750 Td\<newline>'')
       (pageLines opts lines pageNum))"
  proof (rule isAscii_foldl)
    show "isAscii (js ''BT\<newline>/F1 12 Tf\<newline>50 750 Td\<newline>'')" by (simp add: js_def)
    show "list_all isAscii (pageLines opts lines pageNum)"
      using assms(1) by (rule pageLines_all)
    show "isAscii (acc @ [40] @ docxEscape x @ js '') Tj\<newline>0 -'' @
                numStr (lineHeight opts) @ js '' Td\<newline>'')"
      if "isAscii acc" "isAscii x" for acc x
      using that assms(2) by (simp add: isAscii_docxEscape) (simp add: js_def)
  qed
  then show ?thesis by (simp add: docxContentStream_def) (simp add: js_def)
qed

lemma isAscii_xlsxContentStream:
  assumes "list_all isAscii lines" and "\<And>r. isAscii (numStr r)" and "isAscii fileName"
  shows "isAscii (xlsxContentStream numStr opts lines fileName pageNum)"
proof -
  let ?start = "js ''BT\<newline>/F1 12 Tf\<newline>50 520 Td\<newline>'' @
        (if pageNum = 0 then
           js ''(Excel/CSV Table: '' @
           escapePdfString (if fileName \<noteq> [] then fileName else js ''Converted File'') @
           js '') Tj\<newline>0 -20 Td\<newline>'' @ js ''0 -10 Td\<newline>''
         else []) @
        (if 1 < totalPages opts lines then
           js ''/F1 10 Tf\<newline>(Page '' @ showNat (pageNum + 1) @ js '' of '' @
           showNat (totalPages opts lines) @ js '') Tj\<newline>0 -15 Td\<newline>/F1 '' @
           numStr (fontSize opts) @ js '' Tf\<newline>''
         else [])"
  have name: "isAscii (escapePdfString (if fileName \<noteq> [] then fileName else js ''Converted File''))"
    using assms(3) by (intro isAscii_escapePdfString) (simp add: js_def)
  have start: "isAscii ?start"
    using name assms(2) by simp (simp add: js_def)
  have "isAscii (foldl (\<lambda>contentStream line.
              contentStream @ [40] @ escapePdfString line @ js '') Tj\<newline>0 -'' @
                numStr (lineHeight opts) @ js '' Td\<newline>'')
       ?start (pageLines opts lines pageNum))"
  proof (rule isAscii_foldl)
    show "isAscii ?start" by (rule start)
    show "list_all isAscii (pageLines opts lines pageNum)"
      using assms(1) by (rule pageLines_all)
    show "isAscii (acc @ [40] @ escapePdfString x @ js '') Tj\<newline>0 -'' @
                numStr (lineHeight opts) @ js '' Td\<newline>'')"
      if "isAscii acc" "isAscii x" for acc x
      using that assms(2) by (simp add: isAscii_escapePdfString) (simp add: js_def)
  qed
  then show ?thesis unfolding xlsxContentStream_def by (simp add: js_def)
qed

lemma isAscii_objectTexts:
  assumes "isAscii baseFont" and "\<And>r. isAscii (numStr r)" and "\<And>i. isAscii (contentStreams i)"
  shows "list_all isAscii (objectTexts baseFont numStr opts contentStreams count)"
proof -
  have cat: "isAscii catalogContent" by (simp add: catalogContent_def js_def)
  have refs: "list_all isAscii (pageRefs n)" for n
    by (simp add: pageRefs_def list_all_iff) (simp add: js_def)
  have pages: "isAscii (pagesContent n)" for n
    using refs [of n] by (simp add: pagesContent_def isAscii_join) (simp add: js_def)
  have page: "isAscii (pageContent baseFont numStr opts a b)" for a b
    using assms(1,2) by (simp add: pageContent_def) (simp add: js_def)
  have stream: "isAscii (streamContent a (contentStreams i))" for a i
    using assms(3) by (simp add: streamContent_def) (simp add: js_def)
  show ?thesis
    by (simp add: objectTexts_def cat pages del: upt_Suc)
       (simp add: list_all_iff page stream del: upt_Suc)
qed

lemma isAscii_xrefSection: "isAscii (xrefSection table pos)"
proof -
  have step: "isAscii (acc @ padStart 10 48 (showNat p) @ js '' 00000 n \<newline>'')"
    if "isAscii acc" for acc p
    using that by (simp add: isAscii_padStart) (simp add: js_def)
  have "isAscii (foldl (\<lambda>acc pos. acc @ padStart 10 48 (showNat pos) @ js '' 00000 n \<newline>'') acc table)"
    if "isAscii acc" for acc
    using that
  proof (induction table arbitrary: acc)
    case Nil
    then show ?case by simp
  next
    case (Cons p table)
    show ?case using Cons.IH [OF step [OF Cons.prems]] by simp
  qed
  from this [of "[]"] show ?thesis by (simp add: xrefSection_def) (simp add: js_def)
qed

lemma isAscii_pdfString:
  assumes "isAscii baseFont" and "\<And>r. isAscii (numStr r)" and "\<And>i. isAscii (contentStreams i)"
  shows "isAscii (pdfString baseFont numStr opts contentStreams count)"
  using isAscii_objectTexts [OF assms]
  by (simp add: pdfString_eq isAscii_concat isAscii_xrefSection) (simp add: js_def)

text \<open>
  The cross-reference section the program appends is the one the file format asks for.
\<close>

lemma xrefEntry_padStart:
  "xrefEntry p = padStart 10 48 (showNat p) @ js '' 00000 n \<newline>''"
proof -
  have "textEncode (showNat p @ js '' 00000 n \<newline>'') = showNat p @ js '' 00000 n \<newline>''"
    by (rule textEncode_ascii) (simp add: js_def)
  then show ?thesis
    by (simp add: xrefEntry_def padStart_def)
qed

lemma xrefEntries_printed:
  "foldl (\<lambda>acc pos. acc @ padStart 10 48 (showNat pos) @ js '' 00000 n \<newline>'') acc table =
   acc @ concat (map xrefEntry table)"
  by (induction table arbitrary: acc) (simp_all add: xrefEntry_padStart)

lemma xrefSection_printed: "xrefSection table pos = printedXref table pos"
proof -
  have a: "textEncode (js ''xref\<newline>0 '' @ showNat (length table + 1) @
             js ''\<newline>0000000000 65535 f \<newline>'') =
           js ''xref\<newline>0 '' @ showNat (length table + 1) @ js ''\<newline>0000000000 65535 f \<newline>''"
    by (rule textEncode_ascii) (simp add: js_def)
  have b: "textEncode (js ''trailer\<newline><<\<newline>/Size '' @ showNat (length table + 1) @
             js ''\<newline>/Root 1 0 R\<newline>>>\<newline>startxref\<newline>'' @ showNat pos @
             js ''\<newline>%%EOF\<newline>'') =
           js ''trailer\<newline><<\<newline>/Size '' @ showNat (length table + 1) @
             js ''\<newline>/Root 1 0 R\<newline>>>\<newline>startxref\<newline>'' @ showNat pos @
             js ''\<newline>%%EOF\<newline>''"
    by (rule textEncode_ascii) (simp add: js_def)
  show ?thesis
    unfolding printedXref_def a b xrefSection_def xrefEntries_printed
    by (simp add: js_def)
qed

text \<open>The three properties for a document whose text is ASCII.\<close>

lemma pdfString_wellFormed:
  assumes "isAscii baseFont" and "\<And>r. isAscii (numStr r)" and "\<And>i. isAscii (contentStreams i)"
  shows "pdfWellFormed (textEncode (pdfString baseFont numStr opts contentStreams count))
           (xrefTable (pdfObjects baseFont numStr opts contentStreams count))
           (map contentStreams [0..<count])"
proof -
  let ?objs = "objectTexts baseFont numStr opts contentStreams count"
  let ?table = "xrefTable (pdfObjects baseFont numStr opts contentStreams count)"
  let ?body = "js ''%PDF-1.4\<newline>'' @ concat ?objs"
  let ?out = "pdfString baseFont numStr opts contentStreams count"
  have out: "textEncode ?out = ?out"
    using assms by (intro textEncode_ascii isAscii_pdfString)
  have eq: "?out = ?body @ xrefSection ?table (length ?body)"
    by (simp add: pdfString_eq)
  have len: "length ?table = 2 + 2 * count"
    by (simp add: pdfObjects_xrefTable del: upt_Suc)
  have hdr: "textEncode (js ''%PDF-1.4\<newline>'') = js ''%PDF-1.4\<newline>''"
    by (rule textEncode_ascii) (simp add: js_def)
  have eof: "textEncode (js ''%%EOF\<newline>'') = js ''%%EOF\<newline>''"
    by (rule textEncode_ascii) (simp add: js_def)
  have "startsWith ?out (js ''%PDF-1.4\<newline>'')"
    by (simp add: pdfString_eq)
  moreover have "endsWith ?out (js ''%%EOF\<newline>'')"
  proof -
    have "\<exists>pre. ?out = pre @ js ''%%EOF\<newline>''"
      unfolding eq xrefSection_def by (metis append.assoc)
    then obtain pre where "?out = pre @ js ''%%EOF\<newline>''" ..
    then show ?thesis by simp
  qed
  moreover have "objectAt ?out (?table ! k) (k + 1)" if "k < length ?table" for k
  proof -
    have k: "k < 2 + 2 * count" using that len by simp
    obtain rest where "?objs ! k = showNat (k + 1) @ js '' 0 obj\<newline>'' @ rest"
      using objectTexts_header [OF k] by blast
    moreover have "textEncode (showNat (k + 1) @ js '' 0 obj\<newline>'') =
                   showNat (k + 1) @ js '' 0 obj\<newline>''"
      by (rule textEncode_ascii) (simp, simp add: js_def)
    ultimately show ?thesis
      by (simp add: objectAt_def pdfString_at_offset [OF k] startsWith_def)
  qed
  moreover have "streamAt ?out (?table ! (2 * i + 3)) (2 * i + 4)
                   (textEncode (map contentStreams [0..<count] ! i))"
    if "i < length (map contentStreams [0..<count])" for i
  proof -
    have i: "i < count" using that by simp
    then have k: "2 * i + 3 < 2 + 2 * count" by simp
    have cs: "textEncode (contentStreams i) = contentStreams i"
      using assms(3) by (rule textEncode_ascii)
    have "?objs ! (2 * i + 3) = streamContent (2 * i + 4) (contentStreams i)"
      using i by (rule objectTexts_nth(4))
    moreover have "textEncode (showNat (2 * i + 4) @ js '' 0 obj\<newline><<\<newline>/Length '' @
                     showNat (length (contentStreams i)) @ js ''\<newline>>>\<newline>stream\<newline>'') =
                   showNat (2 * i + 4) @ js '' 0 obj\<newline><<\<newline>/Length '' @
                     showNat (length (contentStreams i)) @ js ''\<newline>>>\<newline>stream\<newline>''"
      by (rule textEncode_ascii) (simp, simp add: js_def)
    moreover have "textEncode (js ''\<newline>endstream\<newline>endobj\<newline>'') =
                   js ''\<newline>endstream\<newline>endobj\<newline>''"
      by (rule textEncode_ascii) (simp add: js_def)
    ultimately show ?thesis
      using i
      by (simp add: streamAt_def pdfString_at_offset [OF k] cs streamContent_def startsWith_def
          del: upt_Suc)
  qed
  moreover have "\<exists>body. ?out = body @ printedXref ?table (length body)"
    using eq by (metis xrefSection_printed)
  ultimately show ?thesis
    unfolding pdfWellFormed_def out hdr eof by blast
qed


subsection \<open>The page tree\<close>

lemma totalPages_formula:
  "int (totalPages opts lines) = max 1 \<lceil>real (length lines) / real (maxLinesPerPage opts)\<rceil>"
proof -
  let ?x = "real (length lines) / real (maxLinesPerPage opts)"
  have "0 \<le> ?x" by simp
  then have "- 1 < ?x" by linarith
  then have "0 \<le> \<lceil>?x\<rceil>" by (simp add: zero_le_ceiling)
  then show ?thesis by (auto simp: totalPages_def Let_def max_def)
qed

lemma totalPages_pos: "1 \<le> totalPages opts lines"
  using totalPages_formula [of opts lines] by linarith

lemma concat_pairs:
  "concat (concat (map (\<lambda>i. [A i, B i]) xs)) = concat (map (\<lambda>i. A i @ B i) xs)"
  by (induction xs) simp_all

lemma pdfString_pages:
  "pdfString baseFont numStr opts contentStreams count =
   js ''%PDF-1.4\<newline>'' @ catalogContent @
   (js ''2 0 obj\<newline><<\<newline>/Type /Pages\<newline>/Kids ['' @
    join [32] (map (\<lambda>i. showNat (3 + 2 * i) @ js '' 0 R'') [0..<count]) @
    js '']\<newline>/Count '' @ showNat count @ js ''\<newline>>>\<newline>endobj\<newline>'') @
   concat (map (\<lambda>i. pageContent baseFont numStr opts (3 + 2 * i) (4 + 2 * i) @
                      streamContent (4 + 2 * i) (contentStreams i)) [0..<count]) @
   xrefSection (xrefTable (pdfObjects baseFont numStr opts contentStreams count))
     (currentPos (pdfObjects baseFont numStr opts contentStreams count))"
proof -
  have "concat (objectTexts baseFont numStr opts contentStreams count) =
        catalogContent @ pagesContent count @
        concat (map (\<lambda>i. pageContent baseFont numStr opts (3 + 2 * i) (4 + 2 * i) @
                      streamContent (4 + 2 * i) (contentStreams i)) [0..<count])"
    by (simp add: objectTexts_def concat_pairs mult.commute add.commute del: upt_Suc)
  then show ?thesis
    by (simp add: pdfString_def Let_def pdfObjects_pdf pagesContent_def pageRefs_def
        mult.commute del: upt_Suc)
qed

lemma totalPages_div:
  "totalPages opts lines =
     (let t = nat (- (- int (length lines) div int (maxLinesPerPage opts)))
      in if t = 0 then 1 else t)"
proof -
  have "\<lceil>real (length lines) / real (maxLinesPerPage opts)\<rceil> =
        - (- int (length lines) div int (maxLinesPerPage opts))"
    using ceiling_divide_eq_div [where ?'a = real, of "int (length lines)" "int (maxLinesPerPage opts)"]
    by simp
  then show ?thesis by (simp only: totalPages_def)
qed


subsection \<open>The default geometries\<close>

lemma bitLength_nonpos: "n \<le> 0 \<Longrightarrow> bitLength n = 0"
  by (subst bitLength.simps) simp

lemma bitLength_pos: "0 < n \<Longrightarrow> bitLength n = Suc (bitLength (n div 2))"
  by (subst bitLength.simps) simp

lemmas double_eval =
  toDouble_def binade_def pow2_def roundTiesToEven_def bitLength_nonpos bitLength_pos Let_def

lemma maxLinesPerPage_docxDefaults: "maxLinesPerPage docxDefaults = 52"
  by (simp add: maxLinesPerPage_def docxDefaults_def double_eval)

lemma maxLinesPerPage_xlsxDefaults: "maxLinesPerPage xlsxDefaults = 32"
  by (simp add: maxLinesPerPage_def xlsxDefaults_def double_eval)

lemma validGeometry_docxDefaults: "validGeometry docxDefaults"
  by (simp add: validGeometry_def maxLinesPerPage_docxDefaults)
     (simp add: docxDefaults_def inRange_def)

lemma validGeometry_xlsxDefaults: "validGeometry xlsxDefaults"
  by (simp add: validGeometry_def maxLinesPerPage_xlsxDefaults)
     (simp add: xlsxDefaults_def inRange_def)

lemma docxDefaults_numbers:
  "fontSize docxDefaults = 12" "lineHeight docxDefaults = 14" "margin docxDefaults = 50"
  "pageWidth docxDefaults = 595.28" "pageHeight docxDefaults = 841.89"
  by (simp_all add: docxDefaults_def)

lemma xlsxDefaults_numbers:
  "fontSize xlsxDefaults = 10" "lineHeight xlsxDefaults = 16" "margin xlsxDefaults = 40"
  "pageWidth xlsxDefaults = 842" "pageHeight xlsxDefaults = 595"
  by (simp_all add: xlsxDefaults_def)

lemma replicate_numeral: "replicate (numeral k) x = x # replicate (pred_numeral k) x"
  by (simp add: numeral_eq_Suc)

lemmas pdf_eval =
  js_def createPdfStructure_def xlsxCreatePdfStructure_def docxPdf_def xlsxPdf_def
  pdfString_def pdfObjects_def emitPage_def emitObject_def xrefSection_def padStart_def
  streamContent_def pageContent_def pagesContent_def pageRefs_def catalogContent_def
  docxContentStream_def xlsxContentStream_def escapePdfString_def docxEscape_def
  escapeChain_def replaceChar_def replaceChars_def pageLines_def totalPages_div
  maxLinesPerPage_docxDefaults maxLinesPerPage_xlsxDefaults docxDefaults_numbers
  xlsxDefaults_numbers numStr2_def Let_def
  isHighSurrogate_def isLowSurrogate_def utf8CodePoint_def
  docxContentStreams_def docxXrefTable_def xlsxContentStreams_def xlsxXrefTable_def


section \<open>Double arithmetic\<close>

text \<open>
  What the embedding takes from double arithmetic: \<open>binade x\<close> is the exponent \<open>e\<close> with
  \<open>2^e \<le> x < 2^(e+1)\<close>, \<open>toDouble\<close> rounds with a relative error of at most \<open>2^-53\<close> and
  leaves the integers below \<open>2^53\<close> as they are, and the ceiling of the double quotient
  of two such integers is the ceiling of their exact quotient.
\<close>

lemma bitLength_bounds:
  "0 < n \<Longrightarrow> 2 ^ (bitLength n - 1) \<le> n \<and> n < 2 ^ bitLength n"
proof (induction n rule: bitLength.induct)
  case (1 n)
  show ?case
  proof (cases "n = 1")
    case True
    then show ?thesis
      by (simp add: bitLength_pos bitLength_nonpos)
  next
    case False
    with "1.prems" have half: "0 < n div 2" by simp
    have n: "bitLength n = Suc (bitLength (n div 2))"
      using "1.prems" by (rule bitLength_pos)
    have ih: "2 ^ (bitLength (n div 2) - 1) \<le> n div 2 \<and> n div 2 < 2 ^ bitLength (n div 2)"
      using "1.IH" "1.prems" half by simp
    have pos: "0 < bitLength (n div 2)"
      using half by (simp add: bitLength_pos)
    then have pw: "(2::int) ^ bitLength (n div 2) = 2 * 2 ^ (bitLength (n div 2) - 1)"
      by (cases "bitLength (n div 2)") simp_all
    define a :: int where "a = 2 ^ (bitLength (n div 2) - 1)"
    have "a \<le> n div 2" and "n div 2 < 2 * a"
      using ih pw by (simp_all add: a_def)
    then have "2 * a \<le> n \<and> n < 2 * (2 * a)"
      by presburger
    then show ?thesis
      by (simp add: n pw a_def)
  qed
qed

lemma pow2_powi: "pow2 e = 2 powi e"
  by (simp add: pow2_def power_int_def inverse_eq_divide power_one_over)

lemma pow2_pos: "0 < pow2 e"
  by (simp add: pow2_powi)

lemma binade_lower:
  assumes "0 < x"
  shows "pow2 (binade x) \<le> x"
proof (cases "1 \<le> x")
  case True
  then have n: "0 < \<lfloor>x\<rfloor>" by simp
  have "binade x = int (bitLength \<lfloor>x\<rfloor>) - 1"
    using True by (simp add: binade_def)
  moreover have "0 < bitLength \<lfloor>x\<rfloor>"
    using n by (simp add: bitLength_pos)
  ultimately have "pow2 (binade x) = 2 ^ (bitLength \<lfloor>x\<rfloor> - 1)"
    by (simp add: pow2_def nat_diff_distrib')
  also have "\<dots> = of_int (2 ^ (bitLength \<lfloor>x\<rfloor> - 1))"
    by simp
  also have "\<dots> \<le> of_int \<lfloor>x\<rfloor>"
    using bitLength_bounds [OF n] by (simp only: of_int_le_iff)
  also have "\<dots> \<le> x"
    by simp
  finally show ?thesis .
next
  case False
  with assms have x: "0 < x" "x < 1" by simp_all
  then have "1 < 1 / x" by simp
  then have c: "2 \<le> \<lceil>1 / x\<rceil>" by linarith
  then have n: "0 < \<lceil>1 / x\<rceil> - 1" by simp
  let ?j = "bitLength (\<lceil>1 / x\<rceil> - 1)"
  have "binade x = - int ?j"
    using x by (simp add: binade_def)
  moreover have "0 < ?j"
    using n by (simp add: bitLength_pos)
  ultimately have p: "pow2 (binade x) = 1 / 2 ^ ?j"
    by (simp add: pow2_def)
  have "\<lceil>1 / x\<rceil> - 1 < 2 ^ ?j"
    using bitLength_bounds [OF n] by simp
  then have "\<lceil>1 / x\<rceil> \<le> 2 ^ ?j"
    by simp
  then have "of_int \<lceil>1 / x\<rceil> \<le> (of_int (2 ^ ?j) :: real)"
    by (simp only: of_int_le_iff)
  then have "of_int \<lceil>1 / x\<rceil> \<le> (2 ^ ?j :: real)"
    by simp
  moreover have "1 / x \<le> of_int \<lceil>1 / x\<rceil>"
    by (rule le_of_int_ceiling)
  ultimately have "1 / x \<le> 2 ^ ?j"
    by (rule order_trans [rotated])
  then have "1 \<le> 2 ^ ?j * x"
    using x by (simp add: field_simps)
  then have "1 / 2 ^ ?j \<le> x"
    by (simp add: field_simps)
  then show ?thesis
    using p by simp
qed

lemma binade_upper:
  assumes "0 < x"
  shows "x < pow2 (binade x + 1)"
proof (cases "1 \<le> x")
  case True
  then have n: "0 < \<lfloor>x\<rfloor>" by simp
  have "binade x + 1 = int (bitLength \<lfloor>x\<rfloor>)"
    using True by (simp add: binade_def)
  then have p: "pow2 (binade x + 1) = 2 ^ bitLength \<lfloor>x\<rfloor>"
    by (simp add: pow2_def)
  have "\<lfloor>x\<rfloor> + 1 \<le> 2 ^ bitLength \<lfloor>x\<rfloor>"
    using bitLength_bounds [OF n] by simp
  then have "of_int (\<lfloor>x\<rfloor> + 1) \<le> (of_int (2 ^ bitLength \<lfloor>x\<rfloor>) :: real)"
    by (simp only: of_int_le_iff)
  then have "of_int \<lfloor>x\<rfloor> + 1 \<le> (2 ^ bitLength \<lfloor>x\<rfloor> :: real)"
    by simp
  moreover have "x < of_int \<lfloor>x\<rfloor> + 1"
    by linarith
  ultimately show ?thesis
    using p by linarith
next
  case False
  with assms have x: "0 < x" "x < 1" by simp_all
  then have "1 < 1 / x" by simp
  then have c: "2 \<le> \<lceil>1 / x\<rceil>" by linarith
  then have n: "0 < \<lceil>1 / x\<rceil> - 1" by simp
  let ?j = "bitLength (\<lceil>1 / x\<rceil> - 1)"
  have b: "binade x = - int ?j"
    using x by (simp add: binade_def)
  have j: "0 < ?j"
    using n by (simp add: bitLength_pos)
  then have "binade x + 1 = - int (?j - 1)"
    using b by simp
  moreover have "nat (int (?j - 1)) = ?j - 1"
    by simp
  ultimately have p: "pow2 (binade x + 1) = 1 / 2 ^ (?j - 1)"
    unfolding pow2_def by (cases "?j - 1 = 0") simp_all
  have "2 ^ (?j - 1) \<le> \<lceil>1 / x\<rceil> - 1"
    using bitLength_bounds [OF n] by simp
  then have "of_int (2 ^ (?j - 1)) \<le> (of_int (\<lceil>1 / x\<rceil> - 1) :: real)"
    by (simp only: of_int_le_iff)
  then have "2 ^ (?j - 1) \<le> (of_int \<lceil>1 / x\<rceil> - 1 :: real)"
    by simp
  moreover have "of_int \<lceil>1 / x\<rceil> - 1 < 1 / x"
    by linarith
  ultimately have "2 ^ (?j - 1) < 1 / x"
    by linarith
  then have "2 ^ (?j - 1) * x < 1"
    using x by (simp add: field_simps)
  then have "x < 1 / 2 ^ (?j - 1)"
    by (simp add: field_simps)
  then show ?thesis
    using p by simp
qed

lemma roundTiesToEven_close: "\<bar>of_int (roundTiesToEven y) - y\<bar> \<le> 1 / 2"
  unfolding roundTiesToEven_def Let_def by (auto; linarith)

lemma roundTiesToEven_int: "roundTiesToEven (of_int z) = z"
  by (simp add: roundTiesToEven_def)

lemma toDouble_close:
  assumes "0 < x"
  shows "\<bar>toDouble x - x\<bar> \<le> x / 2 ^ 53"
proof -
  define u where "u = pow2 (binade x - 52)"
  have u: "0 < u" by (simp add: u_def pow2_pos)
  have "u = pow2 (binade x) / 2 ^ 52"
    by (simp add: u_def pow2_powi power_int_diff)
  then have half: "u / 2 \<le> x / 2 ^ 53"
    using binade_lower [OF assms] by (simp add: field_simps)
  have "toDouble x - x = (of_int (roundTiesToEven (x / u)) - x / u) * u"
    using assms u by (simp add: toDouble_def Let_def u_def [symmetric] field_simps)
  then have "\<bar>toDouble x - x\<bar> = \<bar>of_int (roundTiesToEven (x / u)) - x / u\<bar> * u"
    using u by (simp add: abs_mult)
  also have "\<dots> \<le> 1 / 2 * u"
    using roundTiesToEven_close [of "x / u"] u by (intro mult_right_mono) simp_all
  finally show ?thesis
    using half by simp
qed

lemma toDouble_int:
  assumes "0 \<le> k" and "k < 2 ^ 53"
  shows "toDouble (of_int k) = of_int k"
proof (cases "k = 0")
  case True
  then show ?thesis by (simp add: toDouble_def)
next
  case False
  with assms have k: "0 < k" by simp
  then have x: "1 \<le> (of_int k :: real)" by simp
  have "2 ^ (bitLength k - 1) < (2::int) ^ 53"
    using bitLength_bounds [OF k] assms(2) by linarith
  then have "bitLength k - 1 < 53"
    using power_less_imp_less_exp [of "2::int" "bitLength k - 1" 53] by simp
  then have b: "bitLength k \<le> 53" by simp
  have e: "binade (of_int k) = int (bitLength k) - 1"
    using x by (simp add: binade_def)
  define d where "d = 53 - bitLength k"
  have u: "pow2 (binade (of_int k) - 52) = 1 / 2 ^ d"
    using b k by (simp add: e pow2_def d_def bitLength_pos nat_diff_distrib') 
  have "of_int k / (1 / 2 ^ d) = (of_int (k * 2 ^ d) :: real)"
    by simp
  then have "roundTiesToEven (of_int k / (1 / 2 ^ d)) = k * 2 ^ d"
    by (simp only: roundTiesToEven_int)
  then show ?thesis
    using k by (simp add: toDouble_def Let_def u)
qed

text \<open>
  The page count: for an array of fewer than \<open>2^53\<close> lines, the ceiling of the double
  quotient \<open>lines.length / maxLinesPerPage\<close> is the ceiling of the exact quotient.
\<close>

lemma ceiling_double_quotient:
  assumes "n < 2 ^ 53" and "0 < m"
  shows "\<lceil>toDouble (real n / real m)\<rceil> = \<lceil>real n / real m\<rceil>"
proof (cases "n = 0")
  case True
  then show ?thesis by (simp add: toDouble_def)
next
  case False
  let ?q = "real n / real m"
  let ?k = "\<lceil>?q\<rceil>"
  have q: "0 < ?q" using False assms(2) by simp
  have err: "\<bar>toDouble ?q - ?q\<bar> \<le> ?q / 2 ^ 53"
    using q by (rule toDouble_close)
  have "real n < 2 ^ 53"
    using assms(1) by (metis of_nat_less_iff of_nat_numeral of_nat_power)
  then have small: "?q / 2 ^ 53 < 1 / real m"
    using assms(2) by (simp add: field_simps)
  show ?thesis
  proof (cases "?q = of_int ?k")
    case True
    have "0 \<le> ?k" using q by linarith
    moreover have "?k < 2 ^ 53"
    proof -
      have "1 \<le> real m" using assms(2) by simp
      then have "real n * 1 \<le> real n * real m" by (intro mult_left_mono) simp_all
      then have "?q \<le> real n" using assms(2) by (simp add: field_simps)
      then have "of_int ?k < (2 ^ 53 :: real)" using True \<open>real n < 2 ^ 53\<close> by linarith
      then show ?thesis by (metis of_int_less_iff of_int_numeral of_int_power)
    qed
    ultimately have "toDouble (of_int ?k) = of_int ?k"
      by (rule toDouble_int)
    then show ?thesis using True by simp
  next
    case False
    have lo: "of_int ?k - 1 < ?q"
      by linarith
    have hi: "?q < of_int ?k"
      using False by (metis le_of_int_ceiling order_less_le)
    have "?k * int m - int n > 0"
    proof -
      have "real n < of_int ?k * real m" using hi assms(2) by (simp add: field_simps)
      then have "real_of_int (int n) < real_of_int (?k * int m)" by simp
      then have "int n < ?k * int m" by (simp only: of_int_less_iff)
      then show ?thesis by simp
    qed
    then have "1 \<le> ?k * int m - int n" by simp
    then have "(1::real) \<le> of_int (?k * int m - int n)" by (simp only: of_int_le_iff [symmetric] of_int_1)
    then have up: "1 / real m \<le> of_int ?k - ?q"
      using assms(2) by (simp add: field_simps)
    have "int n - (?k - 1) * int m > 0"
    proof -
      have "(of_int ?k - 1) * real m < real n" using lo assms(2) by (simp add: field_simps)
      then have "real_of_int ((?k - 1) * int m) < real_of_int (int n)" by simp
      then have "(?k - 1) * int m < int n" by (simp only: of_int_less_iff)
      then show ?thesis by simp
    qed
    then have "1 \<le> int n - (?k - 1) * int m" by simp
    then have "(1::real) \<le> of_int (int n - (?k - 1) * int m)" by (simp only: of_int_le_iff [symmetric] of_int_1)
    then have down: "1 / real m \<le> ?q - (of_int ?k - 1)"
      using assms(2) by (simp add: field_simps)
    have "of_int ?k - 1 < toDouble ?q" and "toDouble ?q \<le> of_int ?k"
      using err small up down by linarith+
    then show ?thesis
      by (simp add: ceiling_unique)
  qed
qed


subsection \<open>Well-formed output for ASCII text\<close>

lemma isAscii_numStr2: "isAscii (numStr2 r)"
  by (simp add: numStr2_def Let_def del: showNat_digit showNat_more)

text \<open>
  For every list of lines of ASCII characters (what \<open>cleanText\<close> and \<open>cleanTableText\<close>
  produce), an ASCII file name in the spreadsheet converter, and a valid geometry, the
  bytes returned by \<open>createPdfStructure\<close> start with \<open>%PDF-1.4\n\<close> and end with \<open>%%EOF\n\<close>;
  they end with the cross-reference section of \<open>xrefTable\<close>, at the byte offset
  \<open>startxref\<close> names; for every object \<open>N\<close> the offset printed for it is the byte position
  of the first byte of \<open>N 0 obj\<close>; and every content stream's declared \<open>/Length\<close> is the
  byte length of its body.
\<close>

theorem createPdfStructure_wellFormed:
  assumes "validGeometry opts" and "validGeometry xopts"
    and "list_all isAscii lines" and "isAscii fileName" and "\<And>r. isAscii (numStr r)"
  shows "pdfWellFormed (createPdfStructure numStr opts lines)
           (docxXrefTable numStr opts lines) (docxContentStreams numStr opts lines) \<and>
         pdfWellFormed (xlsxCreatePdfStructure numStr xopts lines fileName)
           (xlsxXrefTable numStr xopts lines fileName)
           (xlsxContentStreams numStr xopts lines fileName)"
proof
  have "isAscii (js ''Helvetica'')" by (simp add: js_def)
  moreover have "isAscii (docxContentStream numStr opts lines i)" for i
    using assms(3,5) by (rule isAscii_docxContentStream)
  ultimately show "pdfWellFormed (createPdfStructure numStr opts lines)
           (docxXrefTable numStr opts lines) (docxContentStreams numStr opts lines)"
    unfolding createPdfStructure_def docxPdf_def docxXrefTable_def docxContentStreams_def
    using assms(5) by (intro pdfString_wellFormed)
next
  have "isAscii (js ''Courier'')" by (simp add: js_def)
  moreover have "isAscii (xlsxContentStream numStr xopts lines fileName i)" for i
    using assms(3,5,4) by (rule isAscii_xlsxContentStream)
  ultimately show "pdfWellFormed (xlsxCreatePdfStructure numStr xopts lines fileName)
           (xlsxXrefTable numStr xopts lines fileName)
           (xlsxContentStreams numStr xopts lines fileName)"
    unfolding xlsxCreatePdfStructure_def xlsxPdf_def xlsxXrefTable_def xlsxContentStreams_def
    using assms(5) by (intro pdfString_wellFormed)
qed

theorem createPdfStructure_wellFormed_witness:
  "validGeometry docxDefaults \<and> validGeometry xlsxDefaults \<and>
   list_all isAscii [js ''Hello (world)''] \<and> isAscii (js ''a.csv'') \<and>
   pdfWellFormed (createPdfStructure numStr2 docxDefaults [js ''Hello (world)''])
     (docxXrefTable numStr2 docxDefaults [js ''Hello (world)''])
     (docxContentStreams numStr2 docxDefaults [js ''Hello (world)'']) \<and>
   pdfWellFormed (xlsxCreatePdfStructure numStr2 xlsxDefaults [js ''Hello (world)''] (js ''a.csv''))
     (xlsxXrefTable numStr2 xlsxDefaults [js ''Hello (world)''] (js ''a.csv''))
     (xlsxContentStreams numStr2 xlsxDefaults [js ''Hello (world)''] (js ''a.csv''))"
proof -
  have c: "list_all isAscii [js ''Hello (world)'']" and d: "isAscii (js ''a.csv'')"
    by (simp_all add: js_def)
  show ?thesis
    using createPdfStructure_wellFormed
            [OF validGeometry_docxDefaults validGeometry_xlsxDefaults c d isAscii_numStr2]
          validGeometry_docxDefaults validGeometry_xlsxDefaults c d
    by simp
qed

subsection \<open>A file name outside ASCII in the title\<close>

lemmas enc_eval = js_def isHighSurrogate_def isLowSurrogate_def utf8CodePoint_def

lemma startsWith_take:
  assumes "startsWith bs p" and "n \<le> length p"
  shows "take n bs = take n p"
proof -
  have "take n (take (length p) bs) = take n bs"
    using assms(2) by (simp add: min_def)
  then show ?thesis
    using assms(1) by (simp only: startsWith_def)
qed



lemma upt_two: "[0..<2] = [0, Suc 0]"
  by (simp add: numeral_2_eq_2)









section \<open>The PDF assembler: the page tree\<close>

subsection \<open>The objects of a document, as bytes\<close>

lemma textEncode_ascii_prefix: "isAscii p \<Longrightarrow> textEncode (p @ r) = p @ textEncode r"
  by (induction p) (simp_all add: isHighSurrogate_def isLowSurrogate_def utf8CodePoint_def)

lemma textEncode_append:
  "b = [] \<or> \<not> isLowSurrogate (hd b) \<Longrightarrow> textEncode (a @ b) = textEncode a @ textEncode b"
proof (induction a rule: textEncode.induct)
  case 1
  show ?case by simp
next
  case (2 c cs)
  show ?case
  proof (cases "isHighSurrogate c")
    case hi: True
    show ?thesis
    proof (cases cs)
      case Nil
      then show ?thesis using hi "2.prems" by (cases b) simp_all
    next
      case (Cons d ds)
      then show ?thesis using hi 2 by simp
    qed
  next
    case False
    then show ?thesis using 2 by simp
  qed
qed

lemma textEncode_ascii_suffix:
  assumes "isAscii s"
  shows "textEncode (x @ s) = textEncode x @ s"
proof -
  have "s = [] \<or> \<not> isLowSurrogate (hd s)"
    using assms by (cases s) (simp_all add: isLowSurrogate_def)
  then show ?thesis
    using assms by (simp add: textEncode_append textEncode_ascii)
qed

lemma showNat_digits: "set (showNat n) \<subseteq> {48..57}"
proof (induction n rule: showNat.induct)
  case (1 n)
  show ?case
  proof (cases "n < 10")
    case True
    then show ?thesis by simp
  next
    case False
    moreover have "n mod 10 < 10" by simp
    ultimately show ?thesis using 1 by auto
  qed
qed

lemma showNat_nonempty: "showNat n \<noteq> []"
  by (cases "n < 10") simp_all

lemma showNat_head: "showNat n @ r \<noteq> [] \<and> \<not> isLowSurrogate (hd (showNat n @ r))"
proof -
  have "hd (showNat n) \<in> set (showNat n)"
    using showNat_nonempty by simp
  then have "hd (showNat n) \<le> 57"
    using showNat_digits [of n] by auto
  then show ?thesis
    using showNat_nonempty [of n] by (simp add: isLowSurrogate_def)
qed

lemma concat_encode:
  assumes "\<And>t. t \<in> set ts \<Longrightarrow> t \<noteq> [] \<and> \<not> isLowSurrogate (hd t)"
    and "x \<noteq> [] \<and> \<not> isLowSurrogate (hd x)"
  shows "textEncode (concat ts @ x) = concat (map textEncode ts) @ textEncode x \<and>
         concat ts @ x \<noteq> [] \<and> \<not> isLowSurrogate (hd (concat ts @ x))"
  using assms(1)
proof (induction ts)
  case Nil
  show ?case using assms(2) by simp
next
  case (Cons t ts)
  have ih: "textEncode (concat ts @ x) = concat (map textEncode ts) @ textEncode x"
    and safe: "concat ts @ x \<noteq> [] \<and> \<not> isLowSurrogate (hd (concat ts @ x))"
    using Cons by simp_all
  have t: "t \<noteq> [] \<and> \<not> isLowSurrogate (hd t)"
    using Cons.prems by simp
  have "textEncode (t @ (concat ts @ x)) = textEncode t @ textEncode (concat ts @ x)"
    using safe by (intro textEncode_append) simp
  then show ?case
    using ih t by simp
qed

lemma objectTexts_heads:
  assumes "t \<in> set (objectTexts baseFont numStr opts contentStreams count)"
  shows "t \<noteq> [] \<and> \<not> isLowSurrogate (hd t)"
proof -
  obtain k where k: "k < 2 + 2 * count"
    and t: "t = objectTexts baseFont numStr opts contentStreams count ! k"
    using assms by (metis in_set_conv_nth length_objectTexts)
  obtain rest where "t = showNat (k + 1) @ js '' 0 obj\<newline>'' @ rest"
    using objectTexts_header [OF k] t by blast
  then show ?thesis
    using showNat_head [of "k + 1" "js '' 0 obj\<newline>'' @ rest"] by (simp only: simp_thms)
qed

lemma pdfString_bytes:
  "textEncode (pdfString baseFont numStr opts contentStreams count) =
   textEncode (js ''%PDF-1.4\<newline>'') @
   concat (map textEncode (objectTexts baseFont numStr opts contentStreams count)) @
   textEncode (xrefSection (xrefTable (pdfObjects baseFont numStr opts contentStreams count))
     (length (js ''%PDF-1.4\<newline>'' @
        concat (objectTexts baseFont numStr opts contentStreams count))))"
proof -
  let ?x = "xrefSection (xrefTable (pdfObjects baseFont numStr opts contentStreams count))
     (length (js ''%PDF-1.4\<newline>'' @
        concat (objectTexts baseFont numStr opts contentStreams count)))"
  have x: "?x \<noteq> [] \<and> \<not> isLowSurrogate (hd ?x)"
    by (simp add: xrefSection_def js_def isLowSurrogate_def)
  have hdr: "isAscii (js ''%PDF-1.4\<newline>'')"
    by (simp add: js_def)
  show ?thesis
    unfolding pdfString_eq
    using concat_encode [OF objectTexts_heads x]
    by (simp add: textEncode_ascii_prefix [OF hdr] textEncode_ascii [OF hdr])
qed

subsection \<open>The catalog, the page tree, the pages and their streams\<close>

lemma catalog_bytes: "textEncode catalogContent = catalogText"
  by (simp add: catalogText_def catalogContent_def)

lemma pageTree_bytes: "textEncode (pagesContent count) = pageTreeText count"
proof -
  have "pageRefs count = map (\<lambda>i. showNat (2 * i + 3) @ js '' 0 R'') [0..<count]"
    by (simp add: pageRefs_def add.commute mult.commute)
  moreover have "js '' '' = [32]"
    by (simp add: js_def)
  ultimately show ?thesis
    by (simp add: pageTreeText_def pagesContent_def)
qed

lemma page_bytes:
  "isPageObject n c (textEncode (pageContent baseFont numStr opts n c))"
proof -
  let ?p = "showNat n @ js '' 0 obj\<newline><<\<newline>/Type /Page\<newline>/Parent 2 0 R\<newline>''"
  let ?s = "js ''/Contents '' @ showNat c @ js '' 0 R\<newline>>>\<newline>endobj\<newline>''"
  have p: "isAscii ?p" and s: "isAscii ?s"
    by (simp_all add: js_def)
  obtain r where r: "pageContent baseFont numStr opts n c = ?p @ r"
    by (simp add: pageContent_def js_def)
  define x where "x = showNat n @
     js '' 0 obj\<newline><<\<newline>/Type /Page\<newline>/Parent 2 0 R\<newline>/MediaBox [0 0 '' @
     numStr (pageWidth opts) @ [32] @ numStr (pageHeight opts) @
     js '']\<newline>/Resources <<\<newline>/Font <<\<newline>/F1 <<\<newline>/Type /Font\<newline>/Subtype /Type1\<newline>/BaseFont /'' @
     baseFont @ js ''\<newline>>>\<newline>>>\<newline>>>\<newline>''"
  have x: "pageContent baseFont numStr opts n c = x @ ?s"
    by (simp add: pageContent_def x_def js_def)
  have "startsWith (textEncode (pageContent baseFont numStr opts n c)) (textEncode ?p)"
    unfolding r by (simp only: textEncode_ascii_prefix [OF p] textEncode_ascii [OF p] startsWith_append)
  moreover have "endsWith (textEncode (pageContent baseFont numStr opts n c)) (textEncode ?s)"
    unfolding x by (simp only: textEncode_ascii_suffix [OF s] textEncode_ascii [OF s] endsWith_append)
  ultimately show ?thesis
    by (simp add: isPageObject_def)
qed

lemma stream_bytes: "isStreamObject n (textEncode (streamContent n contentStream))"
proof -
  let ?p = "showNat n @ js '' 0 obj\<newline><<\<newline>/Length ''"
  let ?s = "js ''\<newline>endstream\<newline>endobj\<newline>''"
  have p: "isAscii ?p" and s: "isAscii ?s"
    by (simp_all add: js_def)
  obtain r where r: "streamContent n contentStream = ?p @ r"
    by (simp add: streamContent_def)
  define x where "x = showNat n @ js '' 0 obj\<newline><<\<newline>/Length '' @
     showNat (length contentStream) @ js ''\<newline>>>\<newline>stream\<newline>'' @ contentStream"
  have x: "streamContent n contentStream = x @ ?s"
    by (simp add: streamContent_def x_def)
  have "startsWith (textEncode (streamContent n contentStream)) (textEncode ?p)"
    unfolding r by (simp only: textEncode_ascii_prefix [OF p] textEncode_ascii [OF p] startsWith_append)
  moreover have "endsWith (textEncode (streamContent n contentStream)) (textEncode ?s)"
    unfolding x by (simp only: textEncode_ascii_suffix [OF s] textEncode_ascii [OF s] endsWith_append)
  ultimately show ?thesis
    by (simp add: isStreamObject_def)
qed

text \<open>Which objects are of \<open>/Type /Page\<close>.\<close>

lemma after_header:
  "drop 1 (dropWhile (\<lambda>b. b \<noteq> 10) (textEncode (showNat n @ js '' 0 obj\<newline>'' @ r))) =
   textEncode r"
proof -
  let ?h = "showNat n @ js '' 0 obj''"
  have h: "isAscii ?h"
    by (simp add: js_def)
  have no: "\<forall>b \<in> set ?h. b \<noteq> 10"
    using showNat_digits [of n] by (auto simp: js_def)
  have "showNat n @ js '' 0 obj\<newline>'' @ r = ?h @ [10] @ r"
    by (simp add: js_def)
  then have "textEncode (showNat n @ js '' 0 obj\<newline>'' @ r) = ?h @ [10] @ textEncode r"
    using textEncode_ascii_prefix [of "?h @ [10]" r] h by simp
  then show ?thesis
    using no by (simp add: dropWhile_append3)
qed

lemma declaresPage_catalog: "\<not> declaresPage (textEncode catalogContent)"
proof -
  have eq: "catalogContent = showNat 1 @ js '' 0 obj\<newline>'' @
          js ''<<\<newline>/Type /Catalog\<newline>/Pages 2 0 R\<newline>>>\<newline>endobj\<newline>''"
    by (simp add: catalogContent_def js_def)
  show ?thesis
    unfolding declaresPage_def eq after_header by (simp add: startsWith_def enc_eval)
qed

lemma declaresPage_pageTree: "\<not> declaresPage (textEncode (pagesContent count))"
proof -
  obtain r where eq: "pagesContent count = showNat 2 @ js '' 0 obj\<newline>'' @
          js ''<<\<newline>/Type /Pages\<newline>'' @ r"
    by (simp add: pagesContent_def js_def)
  have enc: "textEncode (js ''<<\<newline>/Type /Pages\<newline>'' @ r) =
             js ''<<\<newline>/Type /Pages\<newline>'' @ textEncode r"
    by (rule textEncode_ascii_prefix) (simp add: js_def)
  show ?thesis
    unfolding declaresPage_def eq after_header enc by (simp add: startsWith_def enc_eval)
qed

lemma declaresPage_page: "declaresPage (textEncode (pageContent baseFont numStr opts n c))"
proof -
  obtain r where eq: "pageContent baseFont numStr opts n c = showNat n @ js '' 0 obj\<newline>'' @
          js ''<<\<newline>/Type /Page\<newline>'' @ r"
    by (simp add: pageContent_def js_def)
  have enc: "textEncode (js ''<<\<newline>/Type /Page\<newline>'' @ r) =
             js ''<<\<newline>/Type /Page\<newline>'' @ textEncode r"
    by (rule textEncode_ascii_prefix) (simp add: js_def)
  show ?thesis
    unfolding declaresPage_def eq after_header enc by (simp add: startsWith_def enc_eval)
qed

lemma declaresPage_stream: "\<not> declaresPage (textEncode (streamContent n contentStream))"
proof -
  obtain r where eq: "streamContent n contentStream = showNat n @ js '' 0 obj\<newline>'' @
          js ''<<\<newline>/Length '' @ r"
    by (simp add: streamContent_def js_def)
  have enc: "textEncode (js ''<<\<newline>/Length '' @ r) =
             js ''<<\<newline>/Length '' @ textEncode r"
    by (rule textEncode_ascii_prefix) (simp add: js_def)
  show ?thesis
    unfolding declaresPage_def eq after_header enc by (simp add: startsWith_def enc_eval)
qed

lemma count_pairs:
  "(\<And>i. P (A i)) \<Longrightarrow> (\<And>i. \<not> P (B i)) \<Longrightarrow>
   length (filter P (concat (map (\<lambda>i. [A i, B i]) xs))) = length xs"
  by (induction xs) simp_all

lemma count_pages:
  "length (filter declaresPage
     (map textEncode (objectTexts baseFont numStr opts contentStreams count))) = count"
proof -
  have "length (filter declaresPage
          (concat (map (\<lambda>i. [textEncode (pageContent baseFont numStr opts (3 + i * 2) (3 + i * 2 + 1)),
                              textEncode (streamContent (3 + i * 2 + 1) (contentStreams i))])
             [0..<count]))) = length [0..<count]"
    by (rule count_pairs) (simp_all add: declaresPage_page declaresPage_stream)
  then show ?thesis
    by (simp add: objectTexts_def declaresPage_catalog declaresPage_pageTree map_concat comp_def
        del: upt_Suc)
qed

subsection \<open>The page tree of a document\<close>

lemma pdfString_pageTree:
  "hasPageTree (textEncode (pdfString baseFont numStr opts contentStreams count)) count"
proof -
  let ?texts = "objectTexts baseFont numStr opts contentStreams count"
  let ?objs = "map textEncode ?texts"
  let ?rest = "textEncode (xrefSection (xrefTable (pdfObjects baseFont numStr opts contentStreams count))
     (length (js ''%PDF-1.4\<newline>'' @ concat ?texts)))"
  have bytes: "textEncode (pdfString baseFont numStr opts contentStreams count) =
        textEncode (js ''%PDF-1.4\<newline>'') @ concat ?objs @ ?rest"
    by (rule pdfString_bytes)
  have xref: "isAscii (js ''xref\<newline>'')"
    by (simp add: js_def)
  have rest: "startsWith ?rest (textEncode (js ''xref\<newline>''))"
    unfolding xrefSection_def
    by (simp only: textEncode_ascii_prefix [OF xref] textEncode_ascii [OF xref] startsWith_append)
  have len: "length ?objs = 2 * count + 2"
    by simp
  have cat: "?objs ! 0 = catalogText"
    by (simp add: objectTexts_nth catalog_bytes)
  have tree: "?objs ! 1 = pageTreeText count"
    by (simp add: objectTexts_nth pageTree_bytes)
  have pages: "isPageObject (2 * i + 3) (2 * i + 4) (?objs ! (2 * i + 2)) \<and>
               isStreamObject (2 * i + 4) (?objs ! (2 * i + 3))" if "i < count" for i
  proof -
    have "?objs ! (2 * i + 2) = textEncode (?texts ! (2 * i + 2))"
      and "?objs ! (2 * i + 3) = textEncode (?texts ! (2 * i + 3))"
      using that by (simp_all del: objectTexts_nth)
    then show ?thesis
      using that by (simp only: objectTexts_nth page_bytes stream_bytes simp_thms)
  qed
  have "length (filter declaresPage ?objs) = count"
    by (rule count_pages)
  with bytes rest len cat tree pages show ?thesis
    unfolding hasPageTree_def by blast
qed

lemma totalPages_max:
  "totalPages opts lines = nat (max 1 \<lceil>real (length lines) / real (maxLinesPerPage opts)\<rceil>)"
  using totalPages_formula [of opts lines] by linarith

text \<open>
  Claim C10.  For every list of lines, the empty list included, and a valid geometry,
  let \<open>p\<close> be \<open>max(1, ceil(lines.length / maxLinesPerPage))\<close>.  The bytes that
  \<open>createPdfStructure\<close> returns, in either converter, are the header, the catalog, the
  page tree whose \<open>/Kids\<close> are the objects \<open>3, 5, ..., 2 p + 1\<close> and whose \<open>/Count\<close> is \<open>p\<close>,
  then for every \<open>i < p\<close> the page object \<open>2 i + 3\<close> followed by the stream \<open>2 i + 4\<close> it
  names as its contents, and then the cross-reference section; exactly \<open>p\<close> of these
  objects are of \<open>/Type /Page\<close>.  As \<open>p\<close> is at least 1, there is a page also when there
  is no line.
\<close>

theorem page_tree_counts:
  assumes "validGeometry opts" and "validGeometry xopts"
  shows "hasPageTree (createPdfStructure numStr opts lines)
           (nat (max 1 \<lceil>real (length lines) / real (maxLinesPerPage opts)\<rceil>)) \<and>
         hasPageTree (xlsxCreatePdfStructure numStr xopts lines fileName)
           (nat (max 1 \<lceil>real (length lines) / real (maxLinesPerPage xopts)\<rceil>))"
  unfolding createPdfStructure_def docxPdf_def xlsxCreatePdfStructure_def xlsxPdf_def
    totalPages_max [symmetric]
  by (simp only: pdfString_pageTree simp_thms)

theorem page_tree_counts_witness:
  "validGeometry docxDefaults \<and> validGeometry xlsxDefaults \<and>
   hasPageTree (createPdfStructure numStr2 docxDefaults []) 1 \<and>
   hasPageTree (xlsxCreatePdfStructure numStr2 xlsxDefaults exampleLines (js ''a.csv'')) 2 \<and>
   pageTreeText 2 =
     textEncode (js ''2 0 obj\<newline><<\<newline>/Type /Pages\<newline>/Kids [3 0 R 5 0 R]\<newline>/Count 2\<newline>>>\<newline>endobj\<newline>'')"
proof -
  have "pageTreeText 2 =
     textEncode (js ''2 0 obj\<newline><<\<newline>/Type /Pages\<newline>/Kids [3 0 R 5 0 R]\<newline>/Count 2\<newline>>>\<newline>endobj\<newline>'')"
    by (simp add: pageTreeText_def upt_two js_def)
  then show ?thesis
    using page_tree_counts
            [OF validGeometry_docxDefaults validGeometry_xlsxDefaults, of numStr2 "[]"]
          page_tree_counts
            [OF validGeometry_docxDefaults validGeometry_xlsxDefaults, of numStr2 exampleLines
               "js ''a.csv''"]
          validGeometry_docxDefaults validGeometry_xlsxDefaults
    by (simp add: maxLinesPerPage_docxDefaults maxLinesPerPage_xlsxDefaults exampleLines_def)
qed


section \<open>The retrieval coordinator: early stop and exhaustion\<close>

lemma fetchWithRetry_from_done:
  "\<not> i < retries \<Longrightarrow> fetchWithRetry_from e req retries i w = (Inr None, w)"
  by (simp add: fetchWithRetry_from.simps)

lemma fetchWithRetry_from_step:
  "i < retries \<Longrightarrow>
   fetchWithRetry_from e req retries i w =
     (case network e (trace w) req of
        Inr resp \<Rightarrow> (Inr (Some resp), w\<lparr>trace := trace w @ [Fetch req]\<rparr>)
      | Inl err \<Rightarrow>
          if i = retries - 1 then (Inl err, w\<lparr>trace := trace w @ [Fetch req]\<rparr>)
          else fetchWithRetry_from e req retries (i + 1)
                 (w\<lparr>trace := trace w @ [Fetch req, Sleep (1000 * (i + 1))]\<rparr>))"
  by (subst fetchWithRetry_from.simps) simp

lemma tryStrategies_stop:
  assumes "strategy (announce i w) = (Inl err, w')" and "isCredentialIssue err"
  shows "tryStrategies (strategy # strategies) i lastError w = (Inl err, methodFailed i err w')"
  using assms by simp

lemma tryStrategies_next:
  assumes "strategy (announce i w) = (Inl err, w')" and "\<not> isCredentialIssue err"
  shows "tryStrategies (strategy # strategies) i lastError w =
           tryStrategies strategies (i + 1) (Some err) (methodFailed i err w')"
  using assms by simp

lemma str_includes_Nil [simp]: "str_includes s []"
  by (cases s) simp_all

lemma str_includes_here: "str_includes (sub @ b) sub"
proof (cases "sub @ b")
  case Nil
  then show ?thesis by simp
next
  case (Cons a list)
  then have "take (length sub) (a # list) = sub" by (metis append_eq_conv_conj)
  then show ?thesis using Cons by simp
qed

lemma methodsReported_append [simp]:
  "methodsReported (a @ b) = methodsReported a @ methodsReported b"
  by (induction a rule: methodsReported.induct) simp_all

lemma fetchCount_append [simp]: "fetchCount (a @ b) = fetchCount a + fetchCount b"
  by (induction a rule: fetchCount.induct) simp_all

lemma str_includes_middle: "str_includes (a @ sub @ b) sub"
  by (induction a) (simp_all add: str_includes_here)

lemma status_403_is_credential_issue:
  "isCredentialIssue (Error (label @ js '' download failed: '' @ showNat 403 @ [32] @ text))"
proof -
  have "showNat 403 = js ''403''" by (simp add: js_def)
  then have "label @ js '' download failed: '' @ showNat 403 @ [32] @ text =
        (label @ js '' download failed: '') @ js ''403'' @ ([32] @ text)"
    by simp
  then show ?thesis
    unfolding isCredentialIssue_def error.sel by (metis str_includes_middle)
qed

text \<open>
  Claim C3.  Whenever a download method fails with an authentication failure, that is
  with an error whose message contains \<open>403\<close> or \<open>Access denied\<close>, \<open>downloadFile\<close> ends
  with that error at once: the world it leaves is the one the failing method left, with
  the report of that failure added, so no later method has run.  This holds for the
  first method, for the second after the first failed otherwise, and for the third
  after the first two failed otherwise.  A response with status 403 that is not \<open>ok\<close>
  makes a method fail in this way.
\<close>

theorem credential_issue_stops:
  "(downloadWithPresignedUrl e bucketName fileName
      (announce 0 (report 5 (js ''Initializing download...'') None w)) = (Inl err1, w1) \<and>
    isCredentialIssue err1 \<longrightarrow>
    downloadFile e bucketName fileName w = (Inl err1, methodFailed 0 err1 w1)) \<and>
   (downloadWithPresignedUrl e bucketName fileName
      (announce 0 (report 5 (js ''Initializing download...'') None w)) = (Inl err1, w1) \<and>
    \<not> isCredentialIssue err1 \<and>
    downloadWithDirectSigning e bucketName fileName (announce 1 (methodFailed 0 err1 w1)) =
      (Inl err2, w2) \<and>
    isCredentialIssue err2 \<longrightarrow>
    downloadFile e bucketName fileName w = (Inl err2, methodFailed 1 err2 w2)) \<and>
   (downloadWithPresignedUrl e bucketName fileName
      (announce 0 (report 5 (js ''Initializing download...'') None w)) = (Inl err1, w1) \<and>
    \<not> isCredentialIssue err1 \<and>
    downloadWithDirectSigning e bucketName fileName (announce 1 (methodFailed 0 err1 w1)) =
      (Inl err2, w2) \<and>
    \<not> isCredentialIssue err2 \<and>
    downloadWithSimpleAuth e bucketName fileName (announce 2 (methodFailed 1 err2 w2)) =
      (Inl err3, w3) \<and>
    isCredentialIssue err3 \<longrightarrow>
    downloadFile e bucketName fileName w = (Inl err3, methodFailed 2 err3 w3)) \<and>
   (\<not> ok resp \<and> status resp = 403 \<longrightarrow>
    (\<exists>err. receive label u (Inr (Some resp), w') = (Inl err, w') \<and> isCredentialIssue err))"
proof (intro conjI impI)
  assume "\<not> ok resp \<and> status resp = 403"
  then show "\<exists>err. receive label u (Inr (Some resp), w') = (Inl err, w') \<and> isCredentialIssue err"
    using status_403_is_credential_issue [of label "statusText resp"]
    by (simp add: receive_def del: showNat_digit showNat_more)
qed (simp_all add: downloadFile_def numeral_2_eq_2)

lemmas download_eval =
  js_def downloadFile_def downloadWithPresignedUrl_def downloadWithDirectSigning_def
  downloadWithSimpleAuth_def receive_def fetchWithRetry_def createPresignedUrl_def
  createSignedHeaders_def objectUrl_def announce_def methodFailed_def methodSucceeded_def
  report_def isCredentialIssue_def exampleEnv_def emptyWorld_def forbidden_def
  unreachable_def Let_def fetchWithRetry_from_done fetchWithRetry_from_step

theorem credential_issue_stops_witness:
  "isCredentialIssue (Error (js ''Pre-signed URL download failed: 403 Forbidden'')) \<and>
   fst (downloadFile (exampleEnv forbidden) (js ''b'') (js ''k'') emptyWorld) =
     Inl (Error (js ''Pre-signed URL download failed: 403 Forbidden'')) \<and>
   methodsReported (trace (snd (downloadFile (exampleEnv forbidden) (js ''b'') (js ''k'') emptyWorld))) =
     [MethodFailed 1 (js ''Pre-signed URL download failed: 403 Forbidden'')] \<and>
   fetchCount (trace (snd (downloadFile (exampleEnv forbidden) (js ''b'') (js ''k'') emptyWorld))) = 1"
proof -
  let ?err = "Error (js ''Pre-signed URL download failed: 403 Forbidden'')"
  let ?s = "downloadWithPresignedUrl (exampleEnv forbidden) (js ''b'') (js ''k'')
      (announce 0 (report 5 (js ''Initializing download...'') None emptyWorld))"
  have a: "isCredentialIssue ?err"
    by (simp add: isCredentialIssue_def js_def)
  have s: "?s = (Inl ?err, snd ?s)"
    by (simp add: download_eval key_eval)
  have tr: "methodsReported (trace (snd ?s)) = []" "fetchCount (trace (snd ?s)) = 1"
    by (simp_all add: download_eval key_eval)
  have "downloadFile (exampleEnv forbidden) (js ''b'') (js ''k'') emptyWorld =
        (Inl ?err, methodFailed 0 ?err (snd ?s))"
    using credential_issue_stops [THEN conjunct1, of "exampleEnv forbidden" "js ''b''" "js ''k''"
        emptyWorld ?err "snd ?s"] s a by blast
  then show ?thesis using a tr by (simp add: methodFailed_def)
qed

text \<open>
  Claim C4, as amended.  When the three methods, tried in the order pre-signed URL,
  signed headers, basic authentication, all fail and the first two failures are not
  authentication failures, \<open>downloadFile\<close> throws the error of the third method, and
  nothing else: the failures of the first and second method are reported on the console
  only.  The world it leaves is the one the third method left, with that failure
  reported; there is no result.
\<close>

theorem all_methods_fail:
  assumes "downloadWithPresignedUrl e bucketName fileName
             (announce 0 (report 5 (js ''Initializing download...'') None w)) = (Inl err1, w1)"
    and "\<not> isCredentialIssue err1"
    and "downloadWithDirectSigning e bucketName fileName (announce 1 (methodFailed 0 err1 w1)) =
           (Inl err2, w2)"
    and "\<not> isCredentialIssue err2"
    and "downloadWithSimpleAuth e bucketName fileName (announce 2 (methodFailed 1 err2 w2)) =
           (Inl err3, w3)"
  shows "downloadFile e bucketName fileName w = (Inl err3, methodFailed 2 err3 w3)"
  using assms by (simp add: downloadFile_def numeral_2_eq_2)

theorem all_methods_fail_witness:
  "\<not> isCredentialIssue (Error (js ''net8'')) \<and> \<not> isCredentialIssue (Error (js ''net17'')) \<and>
   downloadFile (exampleEnv unreachable) (js ''b'') (js ''k'') emptyWorld =
     (Inl (Error (js ''net26'')),
      methodFailed 2 (Error (js ''net26''))
        (snd (downloadWithSimpleAuth (exampleEnv unreachable) (js ''b'') (js ''k'')
           (announce 2 (methodFailed 1 (Error (js ''net17''))
              (snd (downloadWithDirectSigning (exampleEnv unreachable) (js ''b'') (js ''k'')
                 (announce 1 (methodFailed 0 (Error (js ''net8''))
                    (snd (downloadWithPresignedUrl (exampleEnv unreachable) (js ''b'') (js ''k'')
                       (announce 0 (report 5 (js ''Initializing download...'') None
                          emptyWorld)))))))))))))"
proof -
  let ?e = "exampleEnv unreachable"
  let ?s1 = "downloadWithPresignedUrl ?e (js ''b'') (js ''k'')
      (announce 0 (report 5 (js ''Initializing download...'') None emptyWorld))"
  let ?s2 = "downloadWithDirectSigning ?e (js ''b'') (js ''k'')
      (announce 1 (methodFailed 0 (Error (js ''net8'')) (snd ?s1)))"
  let ?s3 = "downloadWithSimpleAuth ?e (js ''b'') (js ''k'')
      (announce 2 (methodFailed 1 (Error (js ''net17'')) (snd ?s2)))"
  have n1: "\<not> isCredentialIssue (Error (js ''net8''))"
    and n2: "\<not> isCredentialIssue (Error (js ''net17''))"
    by (simp_all add: isCredentialIssue_def js_def)
  have s1: "?s1 = (Inl (Error (js ''net8'')), snd ?s1)"
    by (simp add: download_eval key_eval)
  have s2: "?s2 = (Inl (Error (js ''net17'')), snd ?s2)"
    by (simp add: download_eval key_eval)
  have s3: "?s3 = (Inl (Error (js ''net26'')), snd ?s3)"
    by (simp add: download_eval key_eval)
  from all_methods_fail [OF s1 n1 s2 n2 s3] n1 n2 show ?thesis by simp
qed

text \<open>
  The claim as stated fails: on a network where every \<open>fetch\<close> throws, the three methods
  fail with \<open>net8\<close>, \<open>net17\<close> and \<open>net26\<close> after nine calls of \<open>fetch\<close>, and what
  \<open>downloadFile\<close> throws is the third error alone; the errors of the first two methods
  are not part of it.
\<close>

theorem last_error_only:
  "fst (downloadFile (exampleEnv unreachable) (js ''b'') (js ''k'') emptyWorld) =
     Inl (Error (js ''net26'')) \<and>
   methodsReported
     (trace (snd (downloadFile (exampleEnv unreachable) (js ''b'') (js ''k'') emptyWorld))) =
     [MethodFailed 1 (js ''net8''), MethodFailed 2 (js ''net17''), MethodFailed 3 (js ''net26'')] \<and>
   fetchCount
     (trace (snd (downloadFile (exampleEnv unreachable) (js ''b'') (js ''k'') emptyWorld))) = 9 \<and>
   \<not> str_includes (js ''net26'') (js ''net8'') \<and>
   \<not> str_includes (js ''net26'') (js ''net17'')"
  by (simp add: download_eval key_eval)

section \<open>The table extractor: the lines of the table\<close>

lemma unlines_append [simp]: "unlines (a @ b) = unlines a @ unlines b"
  by (simp add: unlines_def)

lemma unlines_Cons [simp]: "unlines (l # ls) = l @ [10] @ unlines ls"
  by (simp add: unlines_def)

lemma unlines_Nil [simp]: "unlines [] = []"
  by (simp add: unlines_def)

lemma dashes: "map (\<lambda>c. padEnd 20 45 []) cells = replicate (length cells) (replicate 20 45)"
  by (simp add: padEnd_def map_replicate_const)

lemma appendRow_header:
  assumes "row \<noteq> []"
  shows "appendRow opts t (row, 0) =
         t @ unlines [tableLine (take (maxColumnsPerPage opts) row),
                      separatorLine (length (take (maxColumnsPerPage opts) row))]"
  using assms
  by (simp add: appendRow_def Let_def tableLine_def separatorLine_def dashes comp_def)
     (simp add: js_def)

lemma appendRow_other:
  assumes "row \<noteq> []" and "0 < index"
  shows "appendRow opts t (row, index) =
         t @ unlines [tableLine (take (maxColumnsPerPage opts) row)]"
  using assms
  by (simp add: appendRow_def Let_def tableLine_def comp_def) (simp add: js_def)

lemma appendRows_others:
  assumes "\<forall>row \<in> set rows. row \<noteq> []" and "0 < k"
  shows "foldl (appendRow opts) t (zip rows [k..<k + length rows]) =
         t @ unlines (map (\<lambda>row. tableLine (take (maxColumnsPerPage opts) row)) rows)"
  using assms
proof (induction rows arbitrary: t k)
  case Nil
  then show ?case by simp
next
  case (Cons row rows)
  have "[k..<k + length (row # rows)] = k # [Suc k..<k + length (row # rows)]"
    by (rule upt_conv_Cons) simp
  then have "[k..<k + length (row # rows)] = k # [Suc k..<Suc k + length rows]"
    by simp
  then have "foldl (appendRow opts) t (zip (row # rows) [k..<k + length (row # rows)]) =
        foldl (appendRow opts) (appendRow opts t (row, k)) (zip rows [Suc k..<Suc k + length rows])"
    by simp
  also have "\<dots> = appendRow opts t (row, k) @
        unlines (map (\<lambda>row. tableLine (take (maxColumnsPerPage opts) row)) rows)"
    using Cons.prems by (intro Cons.IH) simp_all
  finally show ?case using Cons.prems by (simp add: appendRow_other)
qed

lemma appendRows_all:
  assumes "\<forall>row \<in> set (header # others). row \<noteq> []"
  shows "foldl (appendRow opts) t (zip (header # others) [0..<length (header # others)]) =
         t @ unlines ([tableLine (take (maxColumnsPerPage opts) header),
                       separatorLine (length (take (maxColumnsPerPage opts) header))] @
                      map (\<lambda>row. tableLine (take (maxColumnsPerPage opts) row)) others)"
proof -
  have "[0..<length (header # others)] = 0 # [Suc 0..<length (header # others)]"
    by (rule upt_conv_Cons) simp
  then have "[0..<length (header # others)] = 0 # [Suc 0..<Suc 0 + length others]"
    by simp
  then have "foldl (appendRow opts) t (zip (header # others) [0..<length (header # others)]) =
        foldl (appendRow opts) (appendRow opts t (header, 0))
          (zip others [Suc 0..<Suc 0 + length others])"
    by simp
  also have "\<dots> = appendRow opts t (header, 0) @
        unlines (map (\<lambda>row. tableLine (take (maxColumnsPerPage opts) row)) others)"
    using assms by (intro appendRows_others) simp_all
  finally show ?thesis using assms by (simp add: appendRow_header)
qed

lemma appendSheet_lines:
  assumes "Sheets wb sheetName = Some rows" and "\<forall>row \<in> set rows. row \<noteq> []"
  shows "appendSheet opts wb t sheetName =
         t @ unlines ((if 1 < length (SheetNames wb) then bannerLines sheetName else []) @
                      sheetLines (maxColumnsPerPage opts) rows)"
proof (cases rows)
  case Nil
  then show ?thesis
    using assms(1) by (simp add: appendSheet_def sheetLines_def bannerLines_def) (simp add: js_def)
next
  case (Cons header others)
  have border: "js ''+-'' @ join (js ''+-'')
          (map (\<lambda>c. padEnd 20 45 []) (take (maxColumnsPerPage opts) (last (header # others)))) @
          js ''+\<newline>'' =
        unlines [separatorLine (length (take (maxColumnsPerPage opts) (last (header # others))))]"
    by (simp add: dashes separatorLine_def) (simp add: js_def)
  have banner: "js ''\<newline>=== Sheet: '' @ sheetName @ js '' ===\<newline>\<newline>'' = unlines (bannerLines sheetName)"
    by (simp add: bannerLines_def) (simp add: js_def)
  have nl: "js ''\<newline>'' = unlines [[]]" by (simp add: js_def)
  have rows: "foldl (appendRow opts) t' (zip (header # others) [0..<length (header # others)]) =
         t' @ unlines ([tableLine (take (maxColumnsPerPage opts) header),
                       separatorLine (length (take (maxColumnsPerPage opts) header))] @
                      map (\<lambda>row. tableLine (take (maxColumnsPerPage opts) row)) others)" for t'
    using assms(2) Cons by (intro appendRows_all) simp
  show ?thesis
    unfolding appendSheet_def assms(1) Cons option.case Let_def rows border banner nl
    by (simp add: sheetLines_def)
qed

lemma appendSheet_missing:
  "Sheets wb sheetName = None \<Longrightarrow> appendSheet opts wb t sheetName = t"
  by (simp add: appendSheet_def)

lemma appendSheets_lines:
  assumes "\<forall>sheetName \<in> set names. \<forall>rows. Sheets wb sheetName = Some rows \<longrightarrow>
             (\<forall>row \<in> set rows. row \<noteq> [])"
  shows "foldl (appendSheet opts wb) t names =
         t @ unlines (concat (map (\<lambda>sheetName.
                    case Sheets wb sheetName of
                      None \<Rightarrow> []
                    | Some rows \<Rightarrow>
                        (if 1 < length (SheetNames wb) then bannerLines sheetName else []) @
                        sheetLines (maxColumnsPerPage opts) rows) names))"
  using assms
proof (induction names arbitrary: t)
  case Nil
  then show ?case by simp
next
  case (Cons name names)
  show ?case
  proof (cases "Sheets wb name")
    case None
    then show ?thesis using Cons by (simp add: appendSheet_missing)
  next
    case (Some rows)
    then have "\<forall>row \<in> set rows. row \<noteq> []" using Cons.prems by simp
    then show ?thesis using Some Cons by (simp add: appendSheet_lines)
  qed
qed

lemma formatCell_length: "length (formatCell cell) \<le> 18"
  by (simp add: formatCell_def Let_def js_def)

lemma padded_cell_length: "length (padEnd 20 32 (formatCell cell)) = 20"
  using formatCell_length [of cell] by (simp add: padEnd_def)

lemma length_join:
  "xs \<noteq> [] \<Longrightarrow> \<forall>x \<in> set xs. length x = n \<Longrightarrow>
   length (join sep xs) = n * length xs + length sep * (length xs - 1)"
  by (induction sep xs rule: join.induct) simp_all

lemma tableLine_length: "cells \<noteq> [] \<Longrightarrow> length (tableLine cells) = 22 * length cells + 1"
proof -
  assume ne: "cells \<noteq> []"
  let ?xs = "map (\<lambda>cell. padEnd 20 32 (formatCell cell)) cells"
  have "length (join (js ''| '') ?xs) = 20 * length ?xs + length (js ''| '') * (length ?xs - 1)"
    using ne by (intro length_join) (simp_all add: padded_cell_length)
  then show ?thesis using ne by (cases cells) (simp_all add: tableLine_def js_def)
qed

lemma separatorLine_length: "0 < n \<Longrightarrow> length (separatorLine n) = 22 * n + 1"
proof -
  assume "0 < n"
  then have "length (join (js ''+-'') (replicate n (replicate 20 45))) =
        20 * length (replicate n (replicate 20 (45::nat))) +
        length (js ''+-'') * (length (replicate n (replicate 20 (45::nat))) - 1)"
    by (intro length_join) auto
  then show ?thesis using \<open>0 < n\<close> by (cases n) (simp_all add: separatorLine_def js_def)
qed

text \<open>
  Claim C8.  For every workbook whose rows are not empty, the text
  \<open>extractSimpleTableText\<close> returns is, up to the final trim, the lines the specification
  describes: per sheet the header row, a separator line, the other rows, a separator
  line after the last row, and, in a workbook with more than one sheet, a banner with
  the sheet's name before the rows.  Every row is a line of cells between bars in which
  a cell longer than 18 characters is cut to 15 characters and an ellipsis and every
  cell is padded to 20 characters, so that a row of \<open>n\<close> cells and its separator line
  are \<open>22 n + 1\<close> characters wide.
\<close>

theorem table_text:
  assumes "\<forall>row \<in> workbookRows wb. row \<noteq> []"
  shows "extractSimpleTableText opts wb =
           trim (unlines (workbookLines (maxColumnsPerPage opts) wb)) \<and>
         (\<forall>cell. length (formatCell cell) \<le> 18 \<and>
                 length (padEnd 20 32 (formatCell cell)) = 20 \<and>
                 (18 < length (trim cell) \<longrightarrow> formatCell cell = take 15 (trim cell) @ js ''...'') \<and>
                 (length (trim cell) \<le> 18 \<longrightarrow> formatCell cell = trim cell)) \<and>
         (\<forall>cells. cells \<noteq> [] \<longrightarrow>
                 length (tableLine cells) = 22 * length cells + 1 \<and>
                 length (separatorLine (length cells)) = 22 * length cells + 1)"
proof (intro conjI allI impI)
  have "\<forall>sheetName \<in> set (SheetNames wb). \<forall>rows. Sheets wb sheetName = Some rows \<longrightarrow>
             (\<forall>row \<in> set rows. row \<noteq> [])"
    using assms by (auto simp: workbookRows_def)
  then show "extractSimpleTableText opts wb =
           trim (unlines (workbookLines (maxColumnsPerPage opts) wb))"
    by (simp add: extractSimpleTableText_def workbookLines_def appendSheets_lines)
qed (simp_all add: formatCell_length padded_cell_length tableLine_length separatorLine_length,
     simp_all add: formatCell_def)

lemmas table_eval =
  replicate_numeral js_def extractSimpleTableText_def appendSheet_def appendRow_def formatCell_def padEnd_def
  trim_def isWhiteSpace_def exampleWorkbook_def xlsxDefaults_def Let_def

theorem table_text_witness:
  "extractSimpleTableText xlsxDefaults exampleWorkbook =
     trim (unlines (workbookLines 6 exampleWorkbook)) \<and>
   extractSimpleTableText xlsxDefaults exampleWorkbook =
     js ''=== Sheet: S1 ===\<newline>\<newline>| name                | a very long hea...  |\<newline>+---------------------+---------------------+\<newline>| x                   | y                   |\<newline>+---------------------+---------------------+\<newline>\<newline>\<newline>=== Sheet: S2 ===\<newline>\<newline>| only                |\<newline>+---------------------+''"
proof -
  have h: "\<forall>row \<in> workbookRows exampleWorkbook. row \<noteq> []"
    by (auto simp: workbookRows_def exampleWorkbook_def split: if_splits)
  have m: "maxColumnsPerPage xlsxDefaults = 6" by (simp add: xlsxDefaults_def)
  have "extractSimpleTableText xlsxDefaults exampleWorkbook =
     trim (unlines (workbookLines 6 exampleWorkbook))"
    using table_text [OF h, of xlsxDefaults] by (simp add: m)
  moreover have "extractSimpleTableText xlsxDefaults exampleWorkbook =
     js ''=== Sheet: S1 ===\<newline>\<newline>| name                | a very long hea...  |\<newline>+---------------------+---------------------+\<newline>| x                   | y                   |\<newline>+---------------------+---------------------+\<newline>\<newline>\<newline>=== Sheet: S2 ===\<newline>\<newline>| only                |\<newline>+---------------------+''"
    by (simp add: table_eval)
  ultimately show ?thesis by simp
qed

section \<open>The converters: a document whatever the extraction does\<close>

subsection \<open>Cleaning and wrapping keep the text ASCII\<close>

lemma isAscii_dropWhile: "isAscii s \<Longrightarrow> isAscii (dropWhile P s)"
  by (induction s) auto

lemma isAscii_rev [simp]: "isAscii (rev s) = isAscii s"
  by (simp add: isAscii_def)

lemma isAscii_trim: "isAscii s \<Longrightarrow> isAscii (trim s)"
  by (simp add: trim_def isAscii_dropWhile)

lemma isAscii_collapseWhiteSpace: "isAscii s \<Longrightarrow> isAscii (collapseWhiteSpace s)"
  by (induction s rule: collapseWhiteSpace.induct) (auto simp: isAscii_dropWhile)

lemma isAscii_stripAfterNewline: "isAscii s \<Longrightarrow> isAscii (stripAfterNewline s)"
  by (induction s rule: stripAfterNewline.induct) (auto simp: isAscii_dropWhile)

lemma isAscii_printable:
  "(\<And>c. \<not> P c \<Longrightarrow> c < 128) \<Longrightarrow> isAscii (replaceChars P (\<lambda>c. [32]) s)"
  by (induction s) (auto simp: replaceChars_def)

lemma isAscii_cleanText: "isAscii (cleanText text)"
  unfolding cleanText_def
  by (intro isAscii_trim isAscii_stripAfterNewline isAscii_collapseWhiteSpace isAscii_printable)
     auto

lemma isAscii_cleanTableText: "isAscii (cleanTableText text)"
  unfolding cleanTableText_def
  by (intro isAscii_trim isAscii_stripAfterNewline isAscii_collapseWhiteSpace isAscii_printable)
     auto

lemma isAscii_split_on: "isAscii s \<Longrightarrow> list_all isAscii (split_on d s)"
  by (induction s) (auto split: list.splits)

lemma isAscii_splitWs_from:
  "isAscii cur \<Longrightarrow> isAscii s \<Longrightarrow> list_all isAscii (splitWs_from cur s)"
  by (induction cur s rule: splitWs_from.induct) (auto simp: isAscii_dropWhile)

lemma isAscii_wrapWords:
  "list_all isAscii ws \<Longrightarrow> list_all isAscii lines \<Longrightarrow> isAscii cur \<Longrightarrow>
   list_all isAscii (fst (wrapWords m ws lines cur)) \<and> isAscii (snd (wrapWords m ws lines cur))"
  by (induction m ws lines cur rule: wrapWords.induct) (auto simp: Let_def isAscii_take)

lemma isAscii_wrapParagraph:
  assumes "list_all isAscii lines" and "isAscii p"
  shows "list_all isAscii (wrapParagraph m lines p)"
proof -
  have "list_all isAscii (splitWs (trim p))"
    using assms(2) by (simp add: splitWs_def isAscii_splitWs_from isAscii_trim)
  from isAscii_wrapWords [OF this assms(1), of "[]" m] show ?thesis
    by (auto simp: wrapParagraph_def split: prod.splits)
qed

lemma isAscii_docxParagraph:
  "list_all isAscii lines \<Longrightarrow> isAscii p \<Longrightarrow> list_all isAscii (docxParagraph m lines p)"
  by (simp add: docxParagraph_def isAscii_wrapParagraph)

lemma isAscii_xlsxParagraph:
  "list_all isAscii lines \<Longrightarrow> isAscii p \<Longrightarrow> list_all isAscii (xlsxParagraph lines p)"
  by (simp add: xlsxParagraph_def isAscii_wrapParagraph isAscii_trim)

lemma isAscii_paragraphs:
  assumes "\<And>lines p. list_all isAscii lines \<Longrightarrow> isAscii p \<Longrightarrow> list_all isAscii (f lines p)"
  shows "list_all isAscii ps \<Longrightarrow> list_all isAscii acc \<Longrightarrow> list_all isAscii (foldl f acc ps)"
  by (induction ps arbitrary: acc) (simp_all add: assms)

lemma isAscii_splitIntoLines: "isAscii text \<Longrightarrow> list_all isAscii (splitIntoLines m text)"
  unfolding splitIntoLines_def
  by (rule isAscii_paragraphs) (simp_all add: isAscii_docxParagraph isAscii_split_on)

lemma isAscii_xlsxSplitIntoLines: "isAscii text \<Longrightarrow> list_all isAscii (xlsxSplitIntoLines text)"
  unfolding xlsxSplitIntoLines_def
  by (rule isAscii_paragraphs) (simp_all add: isAscii_xlsxParagraph isAscii_split_on)

subsection \<open>The documents built from cleaned text\<close>

lemma docxDocument_wellFormed:
  assumes "validGeometry opts" and "\<And>r. isAscii (numStr r)"
  shows "pdfWellFormed
           (createPdfStructure numStr opts (splitIntoLines m (cleanText text)))
           (docxXrefTable numStr opts (splitIntoLines m (cleanText text)))
           (docxContentStreams numStr opts (splitIntoLines m (cleanText text)))"
proof -
  have lines: "list_all isAscii (splitIntoLines m (cleanText text))"
    by (simp add: isAscii_splitIntoLines isAscii_cleanText)
  have "isAscii (js ''Helvetica'')" by (simp add: js_def)
  moreover have "isAscii (docxContentStream numStr opts (splitIntoLines m (cleanText text)) i)" for i
    using lines assms(2) by (rule isAscii_docxContentStream)
  ultimately show ?thesis
    unfolding createPdfStructure_def docxPdf_def docxXrefTable_def docxContentStreams_def
    using assms(2) by (intro pdfString_wellFormed)
qed

lemma xlsxDocument_wellFormed:
  assumes "validGeometry opts" and "isAscii fileName" and "\<And>r. isAscii (numStr r)"
  shows "pdfWellFormed
           (xlsxCreatePdfStructure numStr opts (xlsxSplitIntoLines (cleanTableText text)) fileName)
           (xlsxXrefTable numStr opts (xlsxSplitIntoLines (cleanTableText text)) fileName)
           (xlsxContentStreams numStr opts (xlsxSplitIntoLines (cleanTableText text)) fileName)"
proof -
  have lines: "list_all isAscii (xlsxSplitIntoLines (cleanTableText text))"
    by (simp add: isAscii_xlsxSplitIntoLines isAscii_cleanTableText)
  have "isAscii (js ''Courier'')" by (simp add: js_def)
  moreover have "isAscii (xlsxContentStream numStr opts
      (xlsxSplitIntoLines (cleanTableText text)) fileName i)" for i
    using lines assms(3,2) by (rule isAscii_xlsxContentStream)
  ultimately show ?thesis
    unfolding xlsxCreatePdfStructure_def xlsxPdf_def xlsxXrefTable_def xlsxContentStreams_def
    using assms(3) by (intro pdfString_wellFormed)
qed

lemma trim_Nil: "trim [] = []"
  by (simp add: trim_def)

lemma blank_text: "(t = [] \<or> length (trim t) = 0) = (trim t = [])"
  by (auto simp: trim_def)

subsection \<open>The DOCX converter\<close>

text \<open>
  For every buffer and whatever the extraction does with it, \<open>convertToPdf\<close> of the DOCX
  converter throws nothing and returns a well-formed document: the one of the extracted
  text, or, when the extraction throws or the text is blank, the diagnostic document
  built from the error message by the same cleaning, wrapping and assembly.
\<close>

theorem convertToPdf_wellFormed:
  assumes "validGeometry opts" and "\<And>r. isAscii (numStr r)"
  shows "let text = (case extractTextFromDocx docxBuffer of
                       Inl err \<Rightarrow> docxErrorText (message err)
                     | Inr t \<Rightarrow>
                         if trim t = []
                         then docxErrorText (js ''No text content found in DOCX file'')
                         else t);
             lines = splitIntoLines (maxCharsPerLine opts) (cleanText text)
         in convertToPdf extractTextFromDocx numStr opts docxBuffer =
              Inr (createPdfStructure numStr opts lines) \<and>
            pdfWellFormed (createPdfStructure numStr opts lines)
              (docxXrefTable numStr opts lines) (docxContentStreams numStr opts lines)"
proof (cases "extractTextFromDocx docxBuffer")
  case (Inl err)
  then show ?thesis
    using docxDocument_wellFormed [OF assms]
    by (simp add: convertToPdf_def createErrorPdf_def createPdfManually_def Let_def)
next
  case (Inr t)
  then show ?thesis
    using docxDocument_wellFormed [OF assms]
    by (simp add: convertToPdf_def createErrorPdf_def createPdfManually_def Let_def blank_text trim_Nil)
qed

theorem convertToPdf_wellFormed_witness:
  "validGeometry docxDefaults \<and>
   convertToPdf extractFails numStr2 docxDefaults () =
     Inr (createPdfStructure numStr2 docxDefaults
            (splitIntoLines 75 (cleanText (docxErrorText
               (js ''Failed to extract text from DOCX: Could not find document.xml in DOCX file''))))) \<and>
   pdfWellFormed
     (createPdfStructure numStr2 docxDefaults
        (splitIntoLines 75 (cleanText (docxErrorText
           (js ''Failed to extract text from DOCX: Could not find document.xml in DOCX file'')))))
     (docxXrefTable numStr2 docxDefaults
        (splitIntoLines 75 (cleanText (docxErrorText
           (js ''Failed to extract text from DOCX: Could not find document.xml in DOCX file'')))))
     (docxContentStreams numStr2 docxDefaults
        (splitIntoLines 75 (cleanText (docxErrorText
           (js ''Failed to extract text from DOCX: Could not find document.xml in DOCX file'')))))"
proof -
  have a: "validGeometry docxDefaults"
    by (rule validGeometry_docxDefaults)
  have b: "maxCharsPerLine docxDefaults = 75"
    by (simp add: docxDefaults_def)
  show ?thesis
    using convertToPdf_wellFormed [OF a isAscii_numStr2, of extractFails "()"] a
    by (simp add: extractFails_def Let_def b)
qed

subsection \<open>The spreadsheet converter\<close>

text \<open>
  For every buffer, whatever the parser does with it, and every ASCII file name,
  \<open>convertToPdf\<close> of the spreadsheet converter throws nothing and returns a well-formed
  document: the one of the table text, or, when the parser throws, the workbook has no
  sheet or the table text is blank, the diagnostic document built from the error
  message.
\<close>

theorem xlsxConvertToPdf_wellFormed:
  assumes "validGeometry opts" and "isAscii fileName" and "\<And>r. isAscii (numStr r)"
  shows "let text = (case parseFile fileBuffer fileName of
                       Inl err \<Rightarrow> xlsxErrorText (message err) fileName
                     | Inr wb \<Rightarrow>
                         if SheetNames wb = []
                         then xlsxErrorText (js ''No sheets found in file'') fileName
                         else if trim (extractSimpleTableText opts wb) = []
                         then xlsxErrorText (js ''No data found in file'') fileName
                         else extractSimpleTableText opts wb);
             lines = xlsxSplitIntoLines (cleanTableText text)
         in xlsxConvertToPdf parseFile numStr opts fileBuffer fileName =
              Inr (xlsxCreatePdfStructure numStr opts lines fileName) \<and>
            pdfWellFormed (xlsxCreatePdfStructure numStr opts lines fileName)
              (xlsxXrefTable numStr opts lines fileName)
              (xlsxContentStreams numStr opts lines fileName)"
proof (cases "parseFile fileBuffer fileName")
  case (Inl err)
  then show ?thesis
    using xlsxDocument_wellFormed [OF assms]
    by (simp add: xlsxConvertToPdf_def xlsxCreateErrorPdf_def createSimpleTablePdf_def Let_def)
next
  case (Inr wb)
  then show ?thesis
    using xlsxDocument_wellFormed [OF assms]
    by (simp add: xlsxConvertToPdf_def xlsxCreateErrorPdf_def createSimpleTablePdf_def Let_def
          blank_text trim_Nil)
qed

theorem xlsxConvertToPdf_wellFormed_witness:
  "validGeometry xlsxDefaults \<and> isAscii (js ''report.csv'') \<and>
   xlsxConvertToPdf parseFails numStr2 xlsxDefaults () (js ''report.csv'') =
     Inr (xlsxCreatePdfStructure numStr2 xlsxDefaults
            (xlsxErrorLines (js ''Failed to parse CSV: bad data'') (js ''report.csv''))
            (js ''report.csv'')) \<and>
   pdfWellFormed
     (xlsxCreatePdfStructure numStr2 xlsxDefaults
        (xlsxErrorLines (js ''Failed to parse CSV: bad data'') (js ''report.csv''))
        (js ''report.csv''))
     (xlsxXrefTable numStr2 xlsxDefaults
        (xlsxErrorLines (js ''Failed to parse CSV: bad data'') (js ''report.csv''))
        (js ''report.csv''))
     (xlsxContentStreams numStr2 xlsxDefaults
        (xlsxErrorLines (js ''Failed to parse CSV: bad data'') (js ''report.csv''))
        (js ''report.csv''))"
proof -
  have a: "validGeometry xlsxDefaults"
    by (rule validGeometry_xlsxDefaults)
  have b: "isAscii (js ''report.csv'')"
    by (simp add: js_def)
  show ?thesis
    using xlsxConvertToPdf_wellFormed [OF a b isAscii_numStr2, of parseFails "()"] a b
    by (simp add: parseFails_def Let_def xlsxErrorLines_def)
qed

subsection \<open>A file name outside ASCII\<close>

lemma isWhiteSpace_space: "isWhiteSpace 32"
  by (simp add: isWhiteSpace_def)

lemma isWhiteSpace_newline: "isWhiteSpace 10"
  by (simp add: isWhiteSpace_def)

lemma isWhiteSpace_printable: "32 < c \<Longrightarrow> c < 127 \<Longrightarrow> \<not> isWhiteSpace c"
  by (auto simp: isWhiteSpace_def)

lemmas ws_eval = isWhiteSpace_space isWhiteSpace_newline isWhiteSpace_printable

lemma clean_error_text:
  "cleanTableText (xlsxErrorText (js ''Failed to parse CSV: bad data'') ([233] @ js ''.csv'')) =
     js ''Excel/CSV Table Conversion Error The Excel/CSV file could not be converted to PDF. File: .csv Error: Failed to parse CSV: bad data This may happen with: Complex Excel formulas Large files with many columns Corrupted spreadsheet files Unsupported Excel features Please try: Converting to PDF manually Using simpler Excel/CSV format Reducing file size Checking the original file''"
  by (simp add: xlsxErrorText_def cleanTableText_def replaceChar_def replaceChars_def js_def
        trim_def ws_eval)

lemma error_lines:
  "xlsxErrorLines (js ''Failed to parse CSV: bad data'') ([233] @ js ''.csv'') =
     [js ''Excel/CSV Table Conversion Error The Excel/CSV file could not be converted to PDF. File:'',
      js ''.csv Error: Failed to parse CSV: bad data This may happen with: Complex Excel formulas'',
      js ''Large files with many columns Corrupted spreadsheet files Unsupported Excel features'',
      js ''Please try: Converting to PDF manually Using simpler Excel/CSV format Reducing file size'',
      js ''Checking the original file'']"
  unfolding xlsxErrorLines_def clean_error_text
  by (simp add: js_def xlsxSplitIntoLines_def xlsxParagraph_def wrapParagraph_def trim_def
        splitWs_def Let_def ws_eval)

lemma error_pdf:
  "xlsxConvertToPdf parseFails numStr2 xlsxDefaults () ([233] @ js ''.csv'') =
     Inr (xlsxCreatePdfStructure numStr2 xlsxDefaults
            (xlsxErrorLines (js ''Failed to parse CSV: bad data'') ([233] @ js ''.csv''))
            ([233] @ js ''.csv''))"
  by (simp add: xlsxConvertToPdf_def parseFails_def xlsxCreateErrorPdf_def
        createSimpleTablePdf_def xlsxErrorLines_def)

lemma error_pdf_offsets:
  "xlsxXrefTable numStr2 xlsxDefaults
      (xlsxErrorLines (js ''Failed to parse CSV: bad data'') ([233] @ js ''.csv''))
      ([233] @ js ''.csv'') = [9, 58, 115, 288]"
  unfolding error_lines
  by (simp add: pdf_eval)

lemma error_pdf_stream:
  "length (xlsxContentStreams numStr2 xlsxDefaults
      (xlsxErrorLines (js ''Failed to parse CSV: bad data'') ([233] @ js ''.csv''))
      ([233] @ js ''.csv'') ! 0) = 518 \<and>
   length (textEncode (xlsxContentStreams numStr2 xlsxDefaults
      (xlsxErrorLines (js ''Failed to parse CSV: bad data'') ([233] @ js ''.csv''))
      ([233] @ js ''.csv'') ! 0)) = 519"
  unfolding error_lines
  by (simp add: pdf_eval)

lemma error_pdf_declared:
  "startsWith (drop 288 (xlsxCreatePdfStructure numStr2 xlsxDefaults
            (xlsxErrorLines (js ''Failed to parse CSV: bad data'') ([233] @ js ''.csv''))
            ([233] @ js ''.csv'')))
     (textEncode (js ''4 0 obj\<newline><<\<newline>/Length 518\<newline>>>\<newline>stream\<newline>''))"
  unfolding error_lines
  by (simp add: pdf_eval startsWith_def)

text \<open>
  Claim C2 at a file name outside ASCII.  The parser throws on the buffer and the file is
  named \<open>e-acute.csv\<close> (the code unit 233, then \<open>.csv\<close>).  \<open>convertToPdf\<close> of the
  spreadsheet converter returns the diagnostic document of one page; its content stream
  is object 4, recorded at offset 288.  The title line of the page holds the file name as
  given, so the stream is 518 code units long and is declared as \<open>/Length 518\<close>, but its
  UTF-8 encoding has 519 bytes: the bytes at the recorded offset are not the object of a
  stream whose declared length is the length of its body.
\<close>

theorem diagnostic_pdf_length_mismatch:
  "xlsxConvertToPdf parseFails numStr2 xlsxDefaults () ([233] @ js ''.csv'') =
     Inr (xlsxCreatePdfStructure numStr2 xlsxDefaults
            (xlsxErrorLines (js ''Failed to parse CSV: bad data'') ([233] @ js ''.csv''))
            ([233] @ js ''.csv'')) \<and>
   xlsxXrefTable numStr2 xlsxDefaults
      (xlsxErrorLines (js ''Failed to parse CSV: bad data'') ([233] @ js ''.csv''))
      ([233] @ js ''.csv'') = [9, 58, 115, 288] \<and>
   startsWith (drop 288 (xlsxCreatePdfStructure numStr2 xlsxDefaults
            (xlsxErrorLines (js ''Failed to parse CSV: bad data'') ([233] @ js ''.csv''))
            ([233] @ js ''.csv'')))
     (textEncode (js ''4 0 obj\<newline><<\<newline>/Length 518\<newline>>>\<newline>stream\<newline>'')) \<and>
   length (textEncode (xlsxContentStreams numStr2 xlsxDefaults
      (xlsxErrorLines (js ''Failed to parse CSV: bad data'') ([233] @ js ''.csv''))
      ([233] @ js ''.csv'') ! 0)) = 519 \<and>
   \<not> streamAt (xlsxCreatePdfStructure numStr2 xlsxDefaults
            (xlsxErrorLines (js ''Failed to parse CSV: bad data'') ([233] @ js ''.csv''))
            ([233] @ js ''.csv'')) 288 4
       (textEncode (xlsxContentStreams numStr2 xlsxDefaults
          (xlsxErrorLines (js ''Failed to parse CSV: bad data'') ([233] @ js ''.csv''))
          ([233] @ js ''.csv'') ! 0))"
  (is "_ \<and> _ \<and> _ \<and> _ \<and> \<not> streamAt ?out 288 4 ?body")
proof -
  have len: "length ?body = 519"
    using error_pdf_stream by simp
  have "\<not> streamAt ?out 288 4 ?body"
  proof
    assume "streamAt ?out 288 4 ?body"
    then have "startsWith (drop 288 ?out)
       (textEncode (js ''4 0 obj\<newline><<\<newline>/Length 519\<newline>>>\<newline>stream\<newline>'') @
        ?body @ textEncode (js ''\<newline>endstream\<newline>endobj\<newline>''))"
      unfolding streamAt_def len by (simp add: enc_eval)
    then have "take 22 (drop 288 ?out) =
        take 22 (textEncode (js ''4 0 obj\<newline><<\<newline>/Length 519\<newline>>>\<newline>stream\<newline>'') @
          ?body @ textEncode (js ''\<newline>endstream\<newline>endobj\<newline>''))"
      by (rule startsWith_take) (simp add: enc_eval)
    moreover have "take 22 (drop 288 ?out) =
        take 22 (textEncode (js ''4 0 obj\<newline><<\<newline>/Length 518\<newline>>>\<newline>stream\<newline>''))"
      using error_pdf_declared by (rule startsWith_take) (simp add: enc_eval)
    ultimately show False
      by (simp add: enc_eval)
  qed
  then show ?thesis
    using error_pdf error_pdf_offsets error_pdf_declared len by simp
qed

subsection \<open>The hand-written minimal documents\<close>

text \<open>
  The cross-reference tables of the two hand-written minimal documents record object 4
  at offsets 344 and 356; the object starts at byte 296 and at byte 288.
\<close>

theorem minimal_pdf_offsets:
  "\<not> objectAt (textEncode docxMinimalPdf) 344 4 \<and> objectAt (textEncode docxMinimalPdf) 296 4 \<and>
   \<not> objectAt (textEncode xlsxMinimalPdf) 356 4 \<and> objectAt (textEncode xlsxMinimalPdf) 288 4"
  by (simp add: objectAt_def startsWith_def docxMinimalPdf_def xlsxMinimalPdf_def enc_eval)


end
